theory Spec2Isabelle
  imports Main "HOL-Library.Word" "HOL-Library.Signed_Division"
begin

section \<open>Cloud log tailing: \<^verbatim>\<open>cloudapi/logs.go\<close>\<close>

text \<open>
  A shallow embedding of the log-tailing client. Go's \<^verbatim>\<open>int\<close>, \<^verbatim>\<open>uint\<close> and \<^verbatim>\<open>time.Duration\<close>
  are 64-bit words (the 64-bit targets of the program), with the arithmetic of \<^verbatim>\<open>retry\<close>
  wrapping around; the timestamps are integers within the range of \<^verbatim>\<open>int64\<close>, as the parser
  yields them, and no arithmetic is done on them as \<^verbatim>\<open>int64\<close>; \<^verbatim>\<open>error\<close> values are a datatype
  and a \<^verbatim>\<open>nil\<close> error is \<open>None\<close>; closures with side effects are functions on an explicit
  state.
\<close>

subsection \<open>Errors and durations\<close>

datatype go_error = Error string | Wrapped string go_error

type_synonym duration = "64 word"

definition Second :: duration where
  "Second = 1000000000"

definition Millisecond :: duration where
  "Millisecond = 1000000"

text \<open>
  \<^verbatim>\<open>func (d Duration) Truncate(m Duration) Duration\<close> of package \<^verbatim>\<open>time\<close>:
  \<^verbatim>\<open>if m <= 0 { return d }; return d - d%m\<close>, with Go's remainder, which truncates
  towards zero (\<open>smod\<close>).
\<close>

definition Truncate :: "duration \<Rightarrow> duration \<Rightarrow> duration" where
  "Truncate d m = (if m \<le>s 0 then d else d - word_of_int (sint d smod sint m))"

text \<open>
  \<^verbatim>\<open>math.Abs(interval.Truncate(time.Second).Seconds())\<close>. \<^verbatim>\<open>Seconds\<close> returns
  \<^verbatim>\<open>float64(d / Second) + float64(d % Second) / 1e9\<close>; on a duration truncated to the second
  the remainder is 0 and the quotient is below \<open>2 ^ 34\<close> in magnitude, so the float is the
  whole number of seconds, exactly, and its absolute value is a natural number.
\<close>

definition baseInterval :: "duration \<Rightarrow> nat" where
  "baseInterval interval = nat \<bar>sint (Truncate interval Second) sdiv sint Second\<bar>"

text \<open>
  \<^verbatim>\<open>time.Duration(math.Pow(baseInterval, float64(i)))\<close>. Below \<open>2 ^ 53\<close> every power of a whole
  number is a float64 and \<^verbatim>\<open>math.Pow\<close> (repeated squaring on the mantissa) computes it
  exactly, so the conversion yields that number. From \<open>2 ^ 53\<close> on the float is rounded (and
  from \<open>2 ^ 63\<close> on the conversion is implementation-defined): there the result is the
  parameter \<open>inexact\<close>, about which nothing is assumed.
\<close>

definition pow_duration :: "(nat \<Rightarrow> nat \<Rightarrow> duration) \<Rightarrow> nat \<Rightarrow> nat \<Rightarrow> duration" where
  "pow_duration inexact b i = (if b ^ i < 2 ^ 53 then word_of_nat (b ^ i) else inexact b i)"

subsection \<open>\<^verbatim>\<open>retry\<close>\<close>

text \<open>
  The body of \<^verbatim>\<open>if i > 0 { ... }\<close> up to the call of \<^verbatim>\<open>s.Sleep\<close>: the duration slept before
  attempt \<open>i\<close>. \<open>j\<close> is the value \<^verbatim>\<open>r.Int63n(1000)\<close> returned. The multiplication and the
  addition are those of \<^verbatim>\<open>int64\<close> and wrap around; the comparison is signed.
\<close>

definition backoff_wait :: "(nat \<Rightarrow> nat \<Rightarrow> duration) \<Rightarrow> nat \<Rightarrow> nat \<Rightarrow> nat \<Rightarrow> duration \<Rightarrow> duration" where
  "backoff_wait inexact base i j mx =
     (let wait = pow_duration inexact base i * Second;
          wait = wait + word_of_nat j * Millisecond
      in if mx <s wait then mx else wait)"

text \<open>
  The parameters of one call of \<^verbatim>\<open>retry\<close>. The sleeper and the action act on a state \<open>'s\<close>
  (whatever they read and write); \<open>rand_ms k\<close> is the \<open>k\<close>-th value drawn from the generator
  \<^verbatim>\<open>r\<close>, which is seeded from the clock.
\<close>

record 's retry_args =
  sleeper :: "duration \<Rightarrow> 's \<Rightarrow> 's"
  attempts :: "64 word"
  interval :: duration
  max_interval :: duration
  do :: "'s \<Rightarrow> go_error option \<times> 's"
  rand_ms :: "nat \<Rightarrow> nat"
  inexact_pow :: "nat \<Rightarrow> nat \<Rightarrow> duration"

text \<open>
  The duration that iteration \<open>i > 0\<close> of the loop passes to \<^verbatim>\<open>s.Sleep\<close>: the base is computed
  once, before the loop, and the generator has been used \<open>i - 1\<close> times before.
\<close>

definition wait_before :: "'s retry_args \<Rightarrow> nat \<Rightarrow> duration" where
  "wait_before a i = backoff_wait (inexact_pow a) (baseInterval (interval a)) i
                        (rand_ms a (i - 1)) (max_interval a)"

text \<open>
  The loop \<^verbatim>\<open>for i := 0; i < int(attempts); i++\<close>, from the value \<open>i\<close> of the counter, the value
  \<open>err\<close> of the named result and the state \<open>s\<close>. \<^verbatim>\<open>int(attempts)\<close> reads the 64 bits as a
  signed number (\<open>sint\<close>).
\<close>

function retry_loop :: "'s retry_args \<Rightarrow> nat \<Rightarrow> go_error option \<Rightarrow> 's \<Rightarrow> go_error option \<times> 's" where
  "retry_loop a i err s =
     (if int i < sint (attempts a) then
        let s1 = (if i > 0 then sleeper a (wait_before a i) s else s)
        in (case do a s1 of
              (None, s2) \<Rightarrow> (None, s2)
            | (Some e, s2) \<Rightarrow> retry_loop a (Suc i) (Some e) s2)
      else (err, s))"
  by pat_completeness auto
termination
  by (relation "measure (\<lambda>(a, i, err, s). nat (sint (attempts a) - int i))") auto

definition retry :: "'s retry_args \<Rightarrow> 's \<Rightarrow> go_error option \<times> 's" where
  "retry a s = retry_loop a 0 None s"

declare retry_loop.simps [simp del]

subsection \<open>Observing a run of \<^verbatim>\<open>retry\<close>\<close>

text \<open>
  To count the calls that \<^verbatim>\<open>retry\<close> makes, any sleeper and any action are wrapped so that
  each call is also appended to a log kept beside their state.
\<close>

datatype event = Slept duration | Invoked "go_error option"

definition logged_sleeper :: "(duration \<Rightarrow> 's \<Rightarrow> 's) \<Rightarrow> duration \<Rightarrow> event list \<times> 's \<Rightarrow> event list \<times> 's" where
  "logged_sleeper sl d = (\<lambda>(tr, s). (tr @ [Slept d], sl d s))"

definition logged_do :: "('s \<Rightarrow> go_error option \<times> 's) \<Rightarrow> event list \<times> 's \<Rightarrow> go_error option \<times> event list \<times> 's" where
  "logged_do f = (\<lambda>(tr, s). case f s of (e, s') \<Rightarrow> (e, tr @ [Invoked e], s'))"

definition logged :: "'s retry_args \<Rightarrow> (event list \<times> 's) retry_args" where
  "logged a = \<lparr> sleeper = logged_sleeper (sleeper a), attempts = attempts a,
                interval = interval a, max_interval = max_interval a,
                do = logged_do (do a), rand_ms = rand_ms a, inexact_pow = inexact_pow a \<rparr>"

fun invocations :: "event list \<Rightarrow> go_error option list" where
  "invocations [] = []"
| "invocations (Slept d # tr) = invocations tr"
| "invocations (Invoked e # tr) = e # invocations tr"

fun sleeps :: "event list \<Rightarrow> duration list" where
  "sleeps [] = []"
| "sleeps (Slept d # tr) = d # sleeps tr"
| "sleeps (Invoked e # tr) = sleeps tr"

text \<open>
  What a run of \<^verbatim>\<open>retry\<close> that makes the invocations \<open>cs\<close>, the first of them in iteration
  \<open>i\<close>, does in order: one sleep before every invocation, except in iteration 0.
\<close>

primrec schedule :: "'s retry_args \<Rightarrow> nat \<Rightarrow> go_error option list \<Rightarrow> event list" where
  "schedule a i [] = []"
| "schedule a i (c # cs) =
     (if i > 0 then [Slept (wait_before a i)] else []) @ Invoked c # schedule a (Suc i) cs"

subsection \<open>\<^verbatim>\<open>strconv.ParseInt\<close> and \<^verbatim>\<open>strconv.Atoi\<close>\<close>

text \<open>
  The two functions of Go's standard library that read the timestamps, for base 10 and 64
  bits. Both return a value and an error; the callers in \<^verbatim>\<open>logs.go\<close> differ in what they do
  with the value when the error is not \<^verbatim>\<open>nil\<close>, so the model returns both.
\<close>

datatype num_error = ErrSyntax | ErrRange

definition is_digit :: "char \<Rightarrow> bool" where
  "is_digit c = (48 \<le> (of_char c :: nat) \<and> (of_char c :: nat) \<le> 57)"

definition digit_val :: "char \<Rightarrow> nat" where
  "digit_val c = of_char c - 48"

text \<open>
  The loop of \<^verbatim>\<open>ParseUint\<close> over the bytes of the string, from the number \<open>n\<close> read so far.
  \<^verbatim>\<open>cutoff\<close> is \<^verbatim>\<open>maxUint64/10 + 1\<close>; the loop stops at the first byte that is no digit, or
  at the first digit that takes the number beyond 64 bits, whichever comes first.
\<close>

fun ParseUint_loop :: "nat \<Rightarrow> string \<Rightarrow> nat \<times> num_error option" where
  "ParseUint_loop n [] = (n, None)"
| "ParseUint_loop n (c # cs) =
     (if \<not> is_digit c then (0, Some ErrSyntax)
      else if n \<ge> (2 ^ 64 - 1) div 10 + 1 then (2 ^ 64 - 1, Some ErrRange)
      else if n * 10 + digit_val c > 2 ^ 64 - 1 then (2 ^ 64 - 1, Some ErrRange)
      else ParseUint_loop (n * 10 + digit_val c) cs)"

definition ParseUint :: "string \<Rightarrow> nat \<times> num_error option" where
  "ParseUint s = (if s = [] then (0, Some ErrSyntax) else ParseUint_loop 0 s)"

text \<open>
  \<^verbatim>\<open>ParseInt(s, 10, 64)\<close>: an optional sign, then \<^verbatim>\<open>ParseUint\<close>. A syntax error gives 0; a
  number out of range gives the nearest bound \<^emph>\<open>and\<close> the error \<^verbatim>\<open>ErrRange\<close>.
\<close>

definition ParseInt :: "string \<Rightarrow> int \<times> num_error option" where
  "ParseInt s =
     (if s = [] then (0, Some ErrSyntax)
      else
        let neg = (hd s = CHR ''-'');
            s' = (if hd s = CHR ''+'' \<or> hd s = CHR ''-'' then tl s else s);
            (un, err) = ParseUint s'
        in if err = Some ErrSyntax then (0, err)
           else if \<not> neg \<and> un \<ge> 2 ^ 63 then (2 ^ 63 - 1, Some ErrRange)
           else if neg \<and> un > 2 ^ 63 then (- (2 ^ 63), Some ErrRange)
           else (if neg then - int un else int un, None))"

text \<open>
  \<^verbatim>\<open>Atoi(s)\<close> is \<^verbatim>\<open>ParseInt(s, 10, 0)\<close> converted to \<^verbatim>\<open>int\<close>, which has 64 bits here (its fast
  path for short strings computes the same pair).
\<close>

definition Atoi :: "string \<Rightarrow> int \<times> num_error option" where
  "Atoi s = ParseInt s"

subsection \<open>The messages of the log service\<close>

type_synonym labels = "string \<rightharpoonup> string"

record msgStreams =
  Stream :: labels
  Values :: "(string \<times> string) list"

record msgDroppedEntries =
  Labels :: labels
  Timestamp :: string

record msg =
  Streams :: "msgStreams list"
  DroppedEntries :: "msgDroppedEntries list"

text \<open>\<^verbatim>\<open>func (ms *msgStreams) LatestTimestamp() int64\<close>\<close>

definition LatestTimestamp :: "msgStreams \<Rightarrow> int" where
  "LatestTimestamp ms =
     (case Values ms of
        [] \<Rightarrow> 0
      | v # _ \<Rightarrow> (case ParseInt (fst v) of
                    (unix, None) \<Rightarrow> unix
                  | (unix, Some err) \<Rightarrow> 0))"

subsection \<open>The sink\<close>

text \<open>
  The logger is the list of the records handed to it, in order. A record is what
  \<^verbatim>\<open>logrus.Entry\<close> holds when one of its logging methods is called: the fields, the time set
  by \<^verbatim>\<open>WithTime\<close> (\<open>None\<close> when the caller set none), the level and the message. A time is a
  number of nanoseconds since the Unix epoch. What the logger then does with a record
  (formatting, filtering by its own level, hooks) is not part of \<^verbatim>\<open>logs.go\<close>.
\<close>

datatype log_level = PanicLevel | FatalLevel | ErrorLevel | WarnLevel | InfoLevel | DebugLevel | TraceLevel

datatype field_value = StringValue string | ErrorValue go_error

type_synonym Fields = "string \<rightharpoonup> field_value"

record Entry =
  Data :: Fields
  Time :: "int option"
  Level :: log_level
  Message :: string

definition emit :: "Fields \<Rightarrow> int option \<Rightarrow> log_level \<Rightarrow> string \<Rightarrow> Entry list \<Rightarrow> Entry list" where
  "emit flds t lvl text sink = sink @ [\<lparr>Data = flds, Time = t, Level = lvl, Message = text\<rparr>]"

text \<open>\<^verbatim>\<open>time.Unix(sec, nsec)\<close>\<close>

definition Unix :: "int \<Rightarrow> int \<Rightarrow> int" where
  "Unix sec nsec = sec * 1000000000 + nsec"

subsection \<open>\<^verbatim>\<open>msg.Log\<close>\<close>

definition labelsToLogrusFields :: "labels \<Rightarrow> Fields" where
  "labelsToLogrusFields labels = (\<lambda>key. map_option StringValue (labels key))"

text \<open>
  The inner loop \<^verbatim>\<open>for _, value := range stream.Values\<close>. \<open>parse\<close> is \<^verbatim>\<open>logrus.ParseLevel\<close>, a
  function of the logging library (\<open>None\<close> when it returns an error); the error of \<^verbatim>\<open>Atoi\<close>
  is dropped and its value used.
\<close>

fun log_values :: "(string \<Rightarrow> log_level option) \<Rightarrow> Fields \<Rightarrow> string \<Rightarrow> (string \<times> string) list \<Rightarrow> Entry list \<Rightarrow> Entry list" where
  "log_values parse flds level [] sink = sink"
| "log_values parse flds level (value # rest) sink =
     (let nsec = fst (Atoi (fst value));
          t = Some (Unix 0 nsec);
          sink = (case parse level of
                    None \<Rightarrow> emit flds t WarnLevel (''last message had unknown level '' @ level)
                              (emit flds t InfoLevel (snd value) sink)
                  | Some lvl \<Rightarrow> emit flds t lvl (snd value) sink)
      in log_values parse flds level rest sink)"

text \<open>
  The outer loop \<^verbatim>\<open>for _, stream := range m.Streams\<close>. The variable \<^verbatim>\<open>level\<close> is declared
  before the loop and lives across its iterations, so it is part of the loop's state; the
  two-value map read \<^verbatim>\<open>level, ok = stream.Stream["level"]\<close> assigns the empty string when the
  key is absent.
\<close>

fun log_streams :: "(string \<Rightarrow> log_level option) \<Rightarrow> string \<Rightarrow> msgStreams list \<Rightarrow> Entry list \<Rightarrow> string \<times> Entry list" where
  "log_streams parse level [] sink = (level, sink)"
| "log_streams parse level (stream # rest) sink =
     (let flds = labelsToLogrusFields (Stream stream);
          (level, ok) = (case Stream stream ''level'' of
                           Some v \<Rightarrow> (v, True)
                         | None \<Rightarrow> ([], False));
          flds = (if ok then flds(''level'' := None) else flds);
          sink = log_values parse flds level (Values stream) sink
      in log_streams parse level rest sink)"

text \<open>The loop \<^verbatim>\<open>for _, dropped := range m.DroppedEntries\<close>.\<close>

fun log_dropped :: "msgDroppedEntries list \<Rightarrow> Entry list \<Rightarrow> Entry list" where
  "log_dropped [] sink = sink"
| "log_dropped (dropped # rest) sink =
     (let nsec = fst (Atoi (Timestamp dropped))
      in log_dropped rest
           (emit (labelsToLogrusFields (Labels dropped)) (Some (Unix 0 nsec)) WarnLevel ''dropped'' sink))"

definition Log :: "(string \<Rightarrow> log_level option) \<Rightarrow> msg \<Rightarrow> Entry list \<Rightarrow> Entry list" where
  "Log parse m sink = log_dropped (DroppedEntries m) (snd (log_streams parse [] (Streams m) sink))"

text \<open>
  The words of the specification for one stream entry: its level string is the value of
  its \<^verbatim>\<open>level\<close> label (the empty string when it has none), and its field map is its label set
  without \<^verbatim>\<open>level\<close>. The properties below compare \<^verbatim>\<open>msg.Log\<close> with these.
\<close>

definition level_of :: "msgStreams \<Rightarrow> string" where
  "level_of stream = (case Stream stream ''level'' of Some v \<Rightarrow> v | None \<Rightarrow> [])"

definition fields_of :: "msgStreams \<Rightarrow> Fields" where
  "fields_of stream = (labelsToLogrusFields (Stream stream))(''level'' := None)"

text \<open>The batch with one stream entry and nothing else, and the batch of dropped entries only.\<close>

definition only :: "msgStreams \<Rightarrow> msg" where
  "only stream = \<lparr>Streams = [stream], DroppedEntries = []\<rparr>"

definition only_dropped :: "msgDroppedEntries list \<Rightarrow> msg" where
  "only_dropped ds = \<lparr>Streams = [], DroppedEntries = ds\<rparr>"

subsection \<open>\<^verbatim>\<open>timestampTrack\<close>\<close>

text \<open>
  The tracker holds one \<^verbatim>\<open>int64\<close>, 0 in a fresh tracker. No arithmetic is done on it as an
  \<^verbatim>\<open>int64\<close>: \<^verbatim>\<open>time.Unix(0, ts).Add(time.Millisecond)\<close> is computed on a \<^verbatim>\<open>time.Time\<close>, which holds
  seconds and nanoseconds apart and cannot overflow here. \<open>now\<close> is the value of
  \<^verbatim>\<open>time.Now()\<close>.
\<close>

record timestampTrack =
  ts :: int

definition fresh :: timestampTrack where
  "fresh = \<lparr>ts = 0\<rparr>"

definition TimeOrNow :: "int \<Rightarrow> timestampTrack \<Rightarrow> int" where
  "TimeOrNow now tst = (let t = now in if ts tst > 0 then Unix 0 (ts tst) + 1 * 1000000 else t)"

definition Set_ts :: "int \<Rightarrow> timestampTrack \<Rightarrow> timestampTrack" where
  "Set_ts v tst = (if v < 1 then tst else tst\<lparr>ts := v\<rparr>)"

subsection \<open>The consumer of the message buffer\<close>

text \<open>
  The loop over the streams that finds the most recent timestamp, from the value of
  \<^verbatim>\<open>ts\<close> so far.
\<close>

fun latest_of :: "int \<Rightarrow> msgStreams list \<Rightarrow> int" where
  "latest_of t [] = t"
| "latest_of t (stream # rest) =
     (let sts = LatestTimestamp stream in latest_of (if sts > t then sts else t) rest)"

record consumer =
  logger :: "Entry list"
  latest :: timestampTrack

text \<open>
  One iteration of \<^verbatim>\<open>for message := range msgBuffer\<close>. \<open>unmarshal\<close> is the generated
  \<^verbatim>\<open>easyjson.Unmarshal\<close> for \<^verbatim>\<open>msg\<close>.
\<close>

definition consume :: "(string \<Rightarrow> log_level option) \<Rightarrow> (string \<Rightarrow> go_error + msg) \<Rightarrow> string \<Rightarrow> consumer \<Rightarrow> consumer" where
  "consume parse unmarshal message c =
     (case unmarshal message of
        Inl err \<Rightarrow>
          c\<lparr>logger := emit [''error'' \<mapsto> ErrorValue err] None ErrorLevel
                       (''couldn't unmarshal a message from the cloud: '' @ message) (logger c)\<rparr>
      | Inr m \<Rightarrow>
          let c = c\<lparr>logger := Log parse m (logger c)\<rparr>;
              t = latest_of 0 (Streams m)
          in c\<lparr>latest := Set_ts t (latest c)\<rparr>)"

subsection \<open>The connection: \<^verbatim>\<open>logtailConn\<close> and \<^verbatim>\<open>StreamLogsToLogger\<close>\<close>

text \<open>
  The main goroutine of \<^verbatim>\<open>StreamLogsToLogger\<close>, alone. Everything outside it is a state
  \<open>'w\<close> that its calls read and change: the network, the clock, the context, the message
  buffer with the goroutine that drains it, the tracker that this goroutine writes, and
  the logger. \<open>'c\<close> is a connection; a \<^verbatim>\<open>*websocket.Conn\<close> is a \<open>'c option\<close>, \<open>None\<close> for
  \<^verbatim>\<open>nil\<close>.
  \<^item> \<open>url_Parse\<close>: the error of \<^verbatim>\<open>url.Parse(c.LogsTailURL.String)\<close>;
  \<^item> \<open>DialContext since\<close>: \<^verbatim>\<open>websocket.DefaultDialer.DialContext\<close> on the URL whose \<^verbatim>\<open>start\<close> is
    \<open>since\<close>;
  \<^item> \<open>ctx_Done\<close>: whether \<^verbatim>\<open>ctx.Done()\<close> is closed, as the first \<^verbatim>\<open>select\<close> finds it;
  \<^item> \<open>send_or_Done message\<close>: the second \<^verbatim>\<open>select\<close>, \<open>True\<close> when it took \<^verbatim>\<open>ctx.Done()\<close>,
    otherwise the message is in the buffer;
  \<^item> \<open>load_latest\<close>: the tracker \<^verbatim>\<open>latest\<close> as the atomic load finds it;
  \<^item> \<open>Warn err\<close>: \<^verbatim>\<open>logger.WithError(err).Warn(...)\<close>;
  \<^item> \<open>rand\<close>: the values drawn from a generator seeded at this moment.
\<close>

definition Minute :: duration where
  "Minute = 60 * Second"

record ('w, 'c) env =
  url_Parse :: "go_error option"
  DialContext :: "int \<Rightarrow> 'w \<Rightarrow> (go_error + 'c) \<times> 'w"
  ReadMessage :: "'c \<Rightarrow> 'w \<Rightarrow> (go_error + string) \<times> 'w"
  ctx_Done :: "'w \<Rightarrow> bool"
  send_or_Done :: "string \<Rightarrow> 'w \<Rightarrow> bool \<times> 'w"
  Sleep :: "duration \<Rightarrow> 'w \<Rightarrow> 'w"
  Now :: "'w \<Rightarrow> int"
  load_latest :: "'w \<Rightarrow> timestampTrack"
  Warn :: "go_error \<Rightarrow> 'w \<Rightarrow> 'w"
  rand :: "'w \<Rightarrow> nat \<Rightarrow> nat"
  inexact :: "nat \<Rightarrow> nat \<Rightarrow> duration"

text \<open>
  The call \<^verbatim>\<open>retry(sleeperFunc(time.Sleep), 3, 5*time.Second, 2*time.Minute, func() ...)\<close>. The
  closure assigns the variable \<^verbatim>\<open>conn\<close> of \<^verbatim>\<open>logtailConn\<close>, so the state of the action is the
  world and that variable.
\<close>

definition dial_args :: "('w, 'c) env \<Rightarrow> int \<Rightarrow> 'w \<Rightarrow> ('w \<times> 'c option) retry_args" where
  "dial_args env since w =
     \<lparr> sleeper = (\<lambda>d (w, conn). (Sleep env d w, conn)),
       attempts = 3,
       interval = 5 * Second,
       max_interval = 2 * Minute,
       do = (\<lambda>(w, conn). case DialContext env since w of
                            (Inl err, w') \<Rightarrow> (Some err, (w', None))
                          | (Inr c, w') \<Rightarrow> (None, (w', Some c))),
       rand_ms = rand env w,
       inexact_pow = inexact env \<rparr>"

definition logtailConn :: "('w, 'c) env \<Rightarrow> int \<Rightarrow> 'w \<Rightarrow> (go_error + 'c option) \<times> 'w" where
  "logtailConn env since w =
     (case url_Parse env of
        Some err \<Rightarrow> (Inl (Wrapped ''couldn't parse cloud logs host '' err), w)
      | None \<Rightarrow>
          (case retry (dial_args env since w) (w, None) of
             (Some err, (w', conn)) \<Rightarrow> (Inl err, w')
           | (None, (w', conn)) \<Rightarrow> (Inr conn, w')))"

text \<open>
  The loop \<^verbatim>\<open>for { ... }\<close> has no bound: it is a partial function, \<open>None\<close> where the loop
  never leaves. A \<^verbatim>\<open>nil\<close> connection would make \<^verbatim>\<open>conn.ReadMessage()\<close> panic.
\<close>

datatype outcome = Returned "go_error option" | Panicked

partial_function (option) read_loop :: "('w, 'c) env \<Rightarrow> 'c option \<Rightarrow> 'w \<Rightarrow> (outcome \<times> 'w) option" where
  "read_loop env conn w =
     (case conn of
        None \<Rightarrow> Some (Panicked, w)
      | Some c \<Rightarrow>
          (case ReadMessage env c w of
             (res, w1) \<Rightarrow>
               if ctx_Done env w1 then Some (Returned None, w1)
               else (case res of
                       Inl err \<Rightarrow>
                         (let w2 = Warn env err w1
                          in case logtailConn env (TimeOrNow (Now env w2) (load_latest env w2)) w2 of
                               (Inr newconn, w3) \<Rightarrow> read_loop env newconn w3
                             | (Inl errd, w3) \<Rightarrow> Some (Returned (Some err), w3))
                     | Inr message \<Rightarrow>
                         (case send_or_Done env message w1 of
                            (done, w2) \<Rightarrow>
                              if done then Some (Returned None, w2)
                              else read_loop env conn w2))))"

text \<open>
  \<^verbatim>\<open>StreamLogsToLogger\<close>: the first dial, then the loop. The goroutines it starts and the
  deferred \<^verbatim>\<open>close(msgBuffer)\<close> act on the world only.
\<close>

definition StreamLogsToLogger :: "('w, 'c) env \<Rightarrow> duration \<Rightarrow> 'w \<Rightarrow> (outcome \<times> 'w) option" where
  "StreamLogsToLogger env tailFrom w =
     (case logtailConn env (Now env w + sint (- tailFrom)) w of
        (Inl err, w1) \<Rightarrow> Some (Returned (Some err), w1)
      | (Inr conn, w1) \<Rightarrow> read_loop env conn w1)"

subsection \<open>Concrete runs\<close>

text \<open>
  Actions and a sleeper on a counter of the calls made, to run \<^verbatim>\<open>retry\<close> on: an action that
  always fails, one that succeeds on its second call, and a sleeper that returns at once.
  The generator draws 500 every time.
\<close>

definition failing :: "nat \<Rightarrow> go_error option \<times> nat" where
  "failing k = (Some (Error ''refused''), Suc k)"

definition second_succeeds :: "nat \<Rightarrow> go_error option \<times> nat" where
  "second_succeeds k = (if k = 1 then None else Some (Error ''refused''), Suc k)"

definition no_sleep :: "duration \<Rightarrow> nat \<Rightarrow> nat" where
  "no_sleep d k = k"

definition example_args :: "64 word \<Rightarrow> duration \<Rightarrow> duration \<Rightarrow> (nat \<Rightarrow> go_error option \<times> nat) \<Rightarrow> nat retry_args" where
  "example_args n itv mx f =
     \<lparr> sleeper = no_sleep, attempts = n, interval = itv, max_interval = mx, do = f,
       rand_ms = (\<lambda>k. 500), inexact_pow = (\<lambda>b i. 0) \<rparr>"

text \<open>
  The lower-case names that \<^verbatim>\<open>logrus.ParseLevel\<close> recognises, as a level parser to run
  \<^verbatim>\<open>msg.Log\<close> on, and some stream entries: the one of the specification's end-to-end
  scenario, one with a level that is no level, one without a level, and one whose
  timestamp is \<open>2 ^ 63\<close>, one more than an \<^verbatim>\<open>int64\<close> holds; a dropped entry whose timestamp is
  one less than an \<^verbatim>\<open>int64\<close> holds.
\<close>

definition ParseLevel_lower :: "string \<Rightarrow> log_level option" where
  "ParseLevel_lower s =
     (if s = ''panic'' then Some PanicLevel
      else if s = ''fatal'' then Some FatalLevel
      else if s = ''error'' then Some ErrorLevel
      else if s = ''warn'' \<or> s = ''warning'' then Some WarnLevel
      else if s = ''info'' then Some InfoLevel
      else if s = ''debug'' then Some DebugLevel
      else if s = ''trace'' then Some TraceLevel
      else None)"

definition warn_stream :: msgStreams where
  "warn_stream = \<lparr>Stream = [''level'' \<mapsto> ''warn'', ''job'' \<mapsto> ''x''], Values = [(''200'', ''hello'')]\<rparr>"

definition loud_stream :: msgStreams where
  "loud_stream = \<lparr>Stream = [''level'' \<mapsto> ''loud''],
                   Values = [(''abc'', ''second''), (''100'', ''first'')]\<rparr>"

definition plain_stream :: msgStreams where
  "plain_stream = \<lparr>Stream = [''job'' \<mapsto> ''y''], Values = [(''300'', ''plain'')]\<rparr>"

definition huge_stream :: msgStreams where
  "huge_stream = \<lparr>Stream = [''level'' \<mapsto> ''info''], Values = [(''9223372036854775808'', ''late'')]\<rparr>"

definition tiny_dropped :: msgDroppedEntries where
  "tiny_dropped = \<lparr>Labels = [''job'' \<mapsto> ''x''], Timestamp = ''-9223372036854775809''\<rparr>"

definition scenario :: msg where
  "scenario = \<lparr>Streams = [warn_stream], DroppedEntries = []\<rparr>"

text \<open>
  A world for the main loop that is the number of dials made so far: every dial is refused,
  every read fails, and the context is never cancelled.
\<close>

definition refusing_env :: "(nat, nat) env" where
  "refusing_env =
     \<lparr> url_Parse = None,
       DialContext = (\<lambda>since w. (Inl (Error ''refused''), Suc w)),
       ReadMessage = (\<lambda>c w. (Inl (Error ''closed''), w)),
       ctx_Done = (\<lambda>w. False),
       send_or_Done = (\<lambda>message w. (False, w)),
       Sleep = (\<lambda>d w. w),
       Now = (\<lambda>w. 0),
       load_latest = (\<lambda>w. fresh),
       Warn = (\<lambda>err w. w),
       rand = (\<lambda>w k. 500),
       inexact = (\<lambda>b i. 0) \<rparr>"

text \<open>
  A second world, in which every dial is accepted (the new connection is numbered by the
  dial) and the context is cancelled once a dial has been made.
\<close>

definition accepting_env :: "(nat, nat) env" where
  "accepting_env = refusing_env
     \<lparr> DialContext := (\<lambda>since w. (Inr (Suc w), Suc w)),
       ctx_Done := (\<lambda>w. 1 \<le> w) \<rparr>"

text \<open>A decoder that yields the batch \<open>m\<close> for any frame.\<close>

definition decode_as :: "msg \<Rightarrow> string \<Rightarrow> go_error + msg" where
  "decode_as m message = Inr m"

section \<open>Properties\<close>

subsection \<open>\<^verbatim>\<open>retry\<close>: the calls it makes\<close>

lemma invocations_append: "invocations (xs @ ys) = invocations xs @ invocations ys"
  by (induction xs rule: invocations.induct) auto

lemma sleeps_append: "sleeps (xs @ ys) = sleeps xs @ sleeps ys"
  by (induction xs rule: sleeps.induct) auto

lemma invocations_schedule: "invocations (schedule a i cs) = cs"
  by (induction cs arbitrary: i) auto

lemma sleeps_schedule_pos:
  "0 < i \<Longrightarrow> sleeps (schedule a i cs) = map (wait_before a) [i..<i + length cs]"
proof (induction cs arbitrary: i)
  case Nil
  then show ?case by simp
next
  case (Cons c cs)
  have "sleeps (schedule a i (c # cs)) = wait_before a i # sleeps (schedule a (Suc i) cs)"
    using Cons.prems by simp
  also have "\<dots> = map (wait_before a) (i # [Suc i..<Suc i + length cs])"
    using Cons.IH [of "Suc i"] by simp
  also have "i # [Suc i..<Suc i + length cs] = [i..<i + length (c # cs)]"
    by (simp add: upt_conv_Cons del: upt_Suc)
  finally show ?case .
qed

lemma sleeps_schedule:
  "sleeps (schedule a 0 cs) = map (wait_before a) [1..<length cs]"
  by (cases cs) (simp_all add: sleeps_schedule_pos)

lemma logged_sel:
  "sleeper (logged a) = logged_sleeper (sleeper a)"
  "attempts (logged a) = attempts a"
  "interval (logged a) = interval a"
  "max_interval (logged a) = max_interval a"
  "do (logged a) = logged_do (do a)"
  "rand_ms (logged a) = rand_ms a"
  "inexact_pow (logged a) = inexact_pow a"
  by (simp_all add: logged_def)

lemma wait_before_logged: "wait_before (logged a) i = wait_before a i"
  by (simp add: wait_before_def logged_def)

lemma retry_loop_logged:
  "b = logged a \<Longrightarrow> st = (tr, s) \<Longrightarrow> retry_loop b i err st = (r, tr', s') \<Longrightarrow>
    \<exists>cs. tr' = tr @ schedule a i cs
       \<and> length cs \<le> nat (sint (attempts a) - int i)
       \<and> (\<forall>e \<in> set (butlast cs). e \<noteq> None)
       \<and> (length cs < nat (sint (attempts a) - int i) \<longrightarrow> cs \<noteq> [] \<and> last cs = None)
       \<and> r = (if cs = [] then err else last cs)"
proof (induction b i err st arbitrary: tr s rule: retry_loop.induct)
  case (1 b i err st)
  note st = \<open>st = (tr, s)\<close>
  have b: "sleeper b = logged_sleeper (sleeper a)" "attempts b = attempts a"
    "interval b = interval a" "max_interval b = max_interval a" "do b = logged_do (do a)"
    "rand_ms b = rand_ms a" "inexact_pow b = inexact_pow a"
    using \<open>b = logged a\<close> by (simp_all add: logged_sel)
  show ?case
  proof (cases "int i < sint (attempts a)")
    case False
    then have "retry_loop b i err st = (err, tr, s)"
      by (simp add: retry_loop.simps [of b i] b st)
    with 1(4) False show ?thesis by (intro exI [of _ "[]"]) auto
  next
    case True
    define pre where "pre = (if i > 0 then [Slept (wait_before a i)] else [])"
    define s1 where "s1 = (if i > 0 then sleeper a (wait_before a i) s else s)"
    obtain e s2 where d: "do a s1 = (e, s2)" by (cases "do a s1")
    have la: "int i < sint (attempts b)" using True by (simp add: b)
    have wb: "wait_before b i = wait_before a i"
      by (simp add: wait_before_def b)
    have sl: "(if i > 0 then sleeper b (wait_before b i) st else st) = (tr @ pre, s1)"
      by (simp add: logged_sleeper_def pre_def s1_def wb b st)
    have dl: "do b (tr @ pre, s1) = (e, tr @ pre @ [Invoked e], s2)"
      by (simp add: logged_do_def d b)
    show ?thesis
    proof (cases e)
      case None
      have "retry_loop b i err st = (None, tr @ pre @ [Invoked None], s2)"
        using la sl dl None by (simp add: retry_loop.simps [of b i] Let_def)
      with 1(4) have r: "r = None" "tr' = tr @ pre @ [Invoked None]" by auto
      show ?thesis
        using r True by (intro exI [of _ "[None]"]) (auto simp: pre_def)
    next
      case (Some x)
      have eq: "retry_loop b i err st = retry_loop b (Suc i) (Some x) (tr @ pre @ [Invoked (Some x)], s2)"
        using la sl dl Some by (simp add: retry_loop.simps [of b i] Let_def)
      have "\<exists>cs. tr' = (tr @ pre @ [Invoked (Some x)]) @ schedule a (Suc i) cs
         \<and> length cs \<le> nat (sint (attempts a) - int (Suc i))
         \<and> (\<forall>e \<in> set (butlast cs). e \<noteq> None)
         \<and> (length cs < nat (sint (attempts a) - int (Suc i)) \<longrightarrow> cs \<noteq> [] \<and> last cs = None)
         \<and> r = (if cs = [] then Some x else last cs)"
      proof -
        have step: "(Some x, tr @ pre @ [Invoked (Some x)], s2) = do b (if 0 < i then sleeper b (wait_before b i) st else st)"
          using sl dl Some by simp
        have run: "retry_loop b (Suc i) (Some x) (tr @ pre @ [Invoked (Some x)], s2) = (r, tr', s')"
          using eq 1(4) by simp
        show ?thesis
          by (rule 1(1) [OF la refl step refl \<open>b = logged a\<close> refl run])
      qed
      then obtain cs where cs: "tr' = (tr @ pre @ [Invoked (Some x)]) @ schedule a (Suc i) cs"
         "length cs \<le> nat (sint (attempts a) - int (Suc i))"
         "\<forall>e \<in> set (butlast cs). e \<noteq> None"
         "length cs < nat (sint (attempts a) - int (Suc i)) \<longrightarrow> cs \<noteq> [] \<and> last cs = None"
         "r = (if cs = [] then Some x else last cs)" by blast
      show ?thesis
        using cs True by (intro exI [of _ "Some x # cs"]) (auto simp: pre_def)
    qed
  qed
qed



lemma retry_loop_erase:
  "b = logged a \<Longrightarrow> st = (tr, s) \<Longrightarrow> retry_loop b i err st = (r, tr', s') \<Longrightarrow>
     retry_loop a i err s = (r, s')"
proof (induction b i err st arbitrary: tr s rule: retry_loop.induct)
  case (1 b i err st)
  note st = \<open>st = (tr, s)\<close>
  have b: "sleeper b = logged_sleeper (sleeper a)" "attempts b = attempts a"
    "do b = logged_do (do a)"
    using \<open>b = logged a\<close> by (simp_all add: logged_sel)
  have wb: "wait_before b i = wait_before a i"
    using \<open>b = logged a\<close> by (simp add: wait_before_logged)
  show ?case
  proof (cases "int i < sint (attempts a)")
    case False
    then show ?thesis
      using 1(4) by (simp add: retry_loop.simps [of b i] retry_loop.simps [of a i] b st)
  next
    case True
    define pre where "pre = (if i > 0 then [Slept (wait_before a i)] else [])"
    define s1 where "s1 = (if i > 0 then sleeper a (wait_before a i) s else s)"
    obtain e s2 where d: "do a s1 = (e, s2)" by (cases "do a s1")
    have la: "int i < sint (attempts b)" using True by (simp add: b)
    have sl: "(if i > 0 then sleeper b (wait_before b i) st else st) = (tr @ pre, s1)"
      by (simp add: logged_sleeper_def pre_def s1_def wb b st)
    have dl: "do b (tr @ pre, s1) = (e, tr @ pre @ [Invoked e], s2)"
      by (simp add: logged_do_def d b)
    show ?thesis
    proof (cases e)
      case None
      have "retry_loop b i err st = (None, tr @ pre @ [Invoked None], s2)"
        using la sl dl None by (simp add: retry_loop.simps [of b i] Let_def)
      moreover have "retry_loop a i err s = (None, s2)"
        using True d None by (simp add: retry_loop.simps [of a i] Let_def s1_def)
      ultimately show ?thesis using 1(4) by simp
    next
      case (Some x)
      have eq: "retry_loop b i err st = retry_loop b (Suc i) (Some x) (tr @ pre @ [Invoked (Some x)], s2)"
        using la sl dl Some by (simp add: retry_loop.simps [of b i] Let_def)
      have eq': "retry_loop a i err s = retry_loop a (Suc i) (Some x) s2"
        using True d Some by (simp add: retry_loop.simps [of a i] Let_def s1_def)
      have step: "(Some x, tr @ pre @ [Invoked (Some x)], s2) = do b (if 0 < i then sleeper b (wait_before b i) st else st)"
        using sl dl Some by simp
      have run: "retry_loop b (Suc i) (Some x) (tr @ pre @ [Invoked (Some x)], s2) = (r, tr', s')"
        using eq 1(4) by simp
      have "retry_loop a (Suc i) (Some x) s2 = (r, s')"
        by (rule 1(1) [OF la refl step refl \<open>b = logged a\<close> refl run])
      with eq' show ?thesis by simp
    qed
  qed
qed

lemma sint_small: "uint (w :: 64 word) < 2 ^ 63 \<Longrightarrow> sint w = uint w"
proof -
  assume a: "uint w < 2 ^ 63"
  have "- (2 ^ 63) \<le> uint w" by (rule order_trans [of _ 0]) simp_all
  with a have "signed_take_bit 63 (uint w) = uint w"
    by (intro signed_take_bit_int_eq_self)
  then show ?thesis by (simp add: sint_uint)
qed

lemma count_min:
  assumes "length cs \<le> n" and "\<forall>e \<in> set (butlast cs). e \<noteq> None"
    and "length cs < n \<longrightarrow> cs \<noteq> [] \<and> last cs = None"
  shows "length cs = min (Suc (length (takeWhile (\<lambda>e. e \<noteq> None) cs))) n"
proof (cases cs rule: rev_cases)
  case Nil
  with assms show ?thesis by auto
next
  case (snoc bs l)
  with assms(2) have tw: "takeWhile (\<lambda>e. e \<noteq> None) (bs @ [l]) = bs @ takeWhile (\<lambda>e. e \<noteq> None) [l]"
    by (intro takeWhile_append2) simp
  show ?thesis
    using assms(1,3) snoc tw by (cases l) auto
qed

lemma ex_sel:
  "sleeper (example_args n itv mx f) = no_sleep"
  "attempts (example_args n itv mx f) = n"
  "interval (example_args n itv mx f) = itv"
  "max_interval (example_args n itv mx f) = mx"
  "do (example_args n itv mx f) = f"
  "rand_ms (example_args n itv mx f) = (\<lambda>k. 500)"
  "inexact_pow (example_args n itv mx f) = (\<lambda>b i. 0)"
  by (simp_all add: example_args_def)

lemma base5: "baseInterval 5000000000 = 5"
  by (simp add: baseInterval_def Truncate_def Second_def signed_modulo_int_def signed_divide_int_def word_sle_eq)

lemma basehour: "baseInterval 3600000000000 = 3600"
  by (simp add: baseInterval_def Truncate_def Second_def signed_modulo_int_def signed_divide_int_def word_sle_eq)


lemma wait_5s_1: "wait_before (example_args n 5000000000 mx f) (Suc 0) = (if mx <s 5500000000 then mx else 5500000000)"
  by (simp add: wait_before_def ex_sel base5 backoff_wait_def pow_duration_def Second_def Millisecond_def)

text \<open>
  C10. With \<^verbatim>\<open>attempts = 0\<close> the loop body never runs: \<^verbatim>\<open>retry\<close> returns \<^verbatim>\<open>nil\<close> and leaves the
  state of the action and of the sleeper as it was; the log of their calls stays empty.
\<close>

theorem retry_zero_attempts:
  "retry (a\<lparr>attempts := 0\<rparr>) s = (None, s)
   \<and> retry (logged (a\<lparr>attempts := 0\<rparr>)) ([], s) = (None, [], s)"
  by (simp add: retry_def retry_loop.simps [of _ 0] logged_sel)

text \<open>
  The runs of \<^verbatim>\<open>retry\<close> when \<^verbatim>\<open>attempts\<close> is below \<open>2 ^ 63\<close>, where \<^verbatim>\<open>int(attempts)\<close> is the same
  number. Let \<open>cs\<close> be the results of the invocations that a run makes, in order. The run is
  \<open>schedule a 0 cs\<close>: every invocation but the first comes right after one sleep, and nothing
  else happens. The number of invocations is \<open>min k n\<close>, where \<open>n\<close> is \<^verbatim>\<open>attempts\<close> and \<open>k\<close>
  is one more than the number of failures before the first success. A success makes
  \<^verbatim>\<open>retry\<close> return \<^verbatim>\<open>nil\<close>; without one there are \<open>n\<close> invocations and \<^verbatim>\<open>retry\<close> returns the
  error of the last. Logging the calls changes neither the result nor the final state.
\<close>

theorem retry_invocations:
  "uint (attempts a) < 2 ^ 63 \<Longrightarrow>
   (case retry (logged a) ([], s) of (r, tr, s') \<Rightarrow>
      let cs = invocations tr in
        retry a s = (r, s')
      \<and> tr = schedule a 0 cs
      \<and> length cs = min (Suc (length (takeWhile (\<lambda>e. e \<noteq> None) cs))) (unat (attempts a))
      \<and> length (sleeps tr) = length cs - 1
      \<and> (None \<in> set cs \<longrightarrow> r = None)
      \<and> (None \<notin> set cs \<longrightarrow> length cs = unat (attempts a))
      \<and> r = (if cs = [] then None else last cs))"
proof -
  assume small: "uint (attempts a) < 2 ^ 63"
  obtain r tr s' where run: "retry (logged a) ([], s) = (r, tr, s')"
    by (cases "retry (logged a) ([], s)") auto
  then have loop: "retry_loop (logged a) 0 None ([], s) = (r, tr, s')"
    by (simp add: retry_def)
  from retry_loop_logged [OF refl refl loop] obtain cs where cs:
    "tr = schedule a 0 cs" "length cs \<le> nat (sint (attempts a))"
    "\<forall>e \<in> set (butlast cs). e \<noteq> None"
    "length cs < nat (sint (attempts a)) \<longrightarrow> cs \<noteq> [] \<and> last cs = None"
    "r = (if cs = [] then None else last cs)"
    by auto
  have n: "nat (sint (attempts a)) = unat (attempts a)"
    using sint_small [OF small] by simp
  have inv: "invocations tr = cs" by (simp add: cs(1) invocations_schedule)
  have er: "retry a s = (r, s')"
    using retry_loop_erase [OF refl refl loop] by (simp add: retry_def)
  have len: "length cs = min (Suc (length (takeWhile (\<lambda>e. e \<noteq> None) cs))) (unat (attempts a))"
    using count_min [OF cs(2,3,4)] by (simp add: n)
  have sl: "length (sleeps tr) = length cs - 1"
    by (simp add: cs(1) sleeps_schedule)
  have some: "None \<in> set cs \<longrightarrow> r = None"
  proof (cases cs rule: rev_cases)
    case Nil
    then show ?thesis by simp
  next
    case (snoc bs l)
    with cs(3,5) show ?thesis by auto
  qed
  have none: "None \<notin> set cs \<longrightarrow> length cs = unat (attempts a)"
  proof
    assume m: "None \<notin> set cs"
    show "length cs = unat (attempts a)"
    proof (rule ccontr)
      assume "length cs \<noteq> unat (attempts a)"
      with cs(2) n have "length cs < nat (sint (attempts a))" by simp
      with cs(4) have "cs \<noteq> []" "last cs = None" by auto
      then have "None \<in> set cs" using last_in_set [of cs] by simp
      with m show False by simp
    qed
  qed
  have "retry a s = (r, s')
      \<and> tr = schedule a 0 (invocations tr)
      \<and> length (invocations tr) = min (Suc (length (takeWhile (\<lambda>e. e \<noteq> None) (invocations tr)))) (unat (attempts a))
      \<and> length (sleeps tr) = length (invocations tr) - 1
      \<and> (None \<in> set (invocations tr) \<longrightarrow> r = None)
      \<and> (None \<notin> set (invocations tr) \<longrightarrow> length (invocations tr) = unat (attempts a))
      \<and> r = (if invocations tr = [] then None else last (invocations tr))"
    unfolding inv using er cs(1) len sl some none cs(5) by (intro conjI)
  then show ?thesis
    unfolding run Let_def prod.case .
qed

text \<open>
  Three attempts at an action that succeeds on its second call: two invocations, one
  sleep of 5.5 seconds between them, and \<^verbatim>\<open>nil\<close>.
\<close>

theorem retry_invocations_witness:
  "uint (attempts (example_args 3 5000000000 120000000000 second_succeeds)) < 2 ^ 63
   \<and> (case retry (logged (example_args 3 5000000000 120000000000 second_succeeds)) ([], 0) of
        (r, tr, s') \<Rightarrow>
          r = None \<and> s' = 2 \<and> length (invocations tr) = 2 \<and> length (sleeps tr) = 1
          \<and> tr = [Invoked (Some (Error ''refused'')), Slept 5500000000, Invoked None])"
proof -
  let ?a = "example_args 3 5000000000 120000000000 second_succeeds"
  have h: "uint (attempts ?a) < 2 ^ 63"
    by (simp add: ex_sel)
  have run: "retry (logged ?a) ([], 0)
      = (None, [Invoked (Some (Error ''refused'')), Slept 5500000000, Invoked None], 2)"
    by (simp add: retry_def retry_loop.simps [of _ 0] retry_loop.simps [of _ "Suc 0"]
        logged_sel ex_sel wait_before_logged wait_5s_1 logged_do_def logged_sleeper_def
        second_succeeds_def no_sleep_def)
  show ?thesis
    using h retry_invocations [OF h, of 0] by (simp add: run)
qed

text \<open>
  When \<^verbatim>\<open>int(attempts)\<close> is not positive the loop is skipped: for \<^verbatim>\<open>attempts = 0\<close>, and for
  every \<^verbatim>\<open>attempts\<close> from \<open>2 ^ 63\<close> on, which the conversion turns into a negative number.
\<close>

lemma retry_negative_bound:
  "sint (attempts a) \<le> 0 \<Longrightarrow>
     retry a s = (None, s) \<and> retry (logged a) ([], s) = (None, [], s)"
  by (simp add: retry_def retry_loop.simps [of _ 0] logged_sel)

text \<open>
  C1 fails on the code at \<^verbatim>\<open>attempts\<close> \<open>= 2 ^ 63\<close>. The claim asks for \<open>min k n\<close> invocations:
  one for an action that succeeds at once, \<open>n\<close> for an action that always fails, whose last
  error is then returned. The code converts \<^verbatim>\<open>attempts\<close> to \<open>- 2 ^ 63\<close>, never enters the loop,
  invokes nothing and returns \<^verbatim>\<open>nil\<close> in both cases.
\<close>

theorem retry_attempts_beyond_int:
  "unat (attempts (example_args 9223372036854775808 5000000000 120000000000 second_succeeds))
     = 9223372036854775808
   \<and> sint (attempts (example_args 9223372036854775808 5000000000 120000000000 second_succeeds))
     = - 9223372036854775808
   \<and> second_succeeds 1 = (None, 2)
   \<and> retry (logged (example_args 9223372036854775808 5000000000 120000000000 second_succeeds)) ([], 1)
     = (None, [], 1)
   \<and> failing 0 = (Some (Error ''refused''), 1)
   \<and> retry (logged (example_args 9223372036854775808 5000000000 120000000000 failing)) ([], 0)
     = (None, [], 0)"
  by (simp add: retry_def retry_loop.simps [of _ 0] logged_sel ex_sel second_succeeds_def failing_def)

subsection \<open>\<^verbatim>\<open>retry\<close>: the durations it sleeps\<close>

text \<open>
  As long as the sum fits an \<^verbatim>\<open>int64\<close>, the duration slept before attempt \<open>i\<close> is the smaller
  of the cap and \<open>base ^ i\<close> seconds plus the jitter in milliseconds; under a base interval
  of less than a second in magnitude the base is 0 and only the jitter is left.
\<close>

lemma sint_word_of_int_small:
  "0 \<le> x \<Longrightarrow> x < 2 ^ 63 \<Longrightarrow> sint (word_of_int x :: 64 word) = x"
proof -
  assume "0 \<le> x" "x < 2 ^ 63"
  then have "signed_take_bit 63 x = x"
    by (intro signed_take_bit_int_eq_self) simp_all
  then show ?thesis by (simp add: sint_sbintrunc')
qed

lemma backoff_wait_in_range:
  assumes "int (base ^ i) * 1000000000 + int j * 1000000 < 2 ^ 63"
  shows "sint (backoff_wait ipw base i j mx)
         = min (int (base ^ i) * 1000000000 + int j * 1000000) (sint mx)"
proof -
  let ?x = "int (base ^ i) * 1000000000 + int j * 1000000"
  define p where "p = base ^ i"
  have "int p < 9223372037" using assms by (simp add: p_def)
  then have "p < 2 ^ 53" by simp
  then have small: "base ^ i < 2 ^ 53" by (simp add: p_def)
  have "pow_duration ipw base i * Second + word_of_nat j * Millisecond = (word_of_int ?x :: 64 word)"
    using small by (simp add: pow_duration_def Second_def Millisecond_def)
  moreover have "sint (word_of_int ?x :: 64 word) = ?x"
    using assms by (intro sint_word_of_int_small) simp_all
  ultimately show ?thesis
    by (simp add: backoff_wait_def Let_def word_sless_alt min_def)
qed

lemma baseInterval_subsecond:
  assumes "- 1000000000 < sint itv" and "sint itv < 1000000000"
  shows "baseInterval itv = 0"
proof -
  have m: "sint itv smod 1000000000 = sint itv"
    using assms by (simp add: signed_modulo_int_def sgn_if)
  have "Truncate itv Second = 0"
    by (simp add: Truncate_def Second_def word_sle_eq m)
  then show ?thesis by (simp add: baseInterval_def)
qed

lemma wait_before_subsecond:
  assumes "- 1000000000 < sint (interval a)" and "sint (interval a) < 1000000000"
    and "0 < i" and "rand_ms a (i - 1) < 1000"
  shows "sint (wait_before a i) = min (int (rand_ms a (i - 1)) * 1000000) (sint (max_interval a))"
proof -
  have b: "baseInterval (interval a) = 0" using assms(1,2) by (rule baseInterval_subsecond)
  have "int ((0::nat) ^ i) * 1000000000 + int (rand_ms a (i - 1)) * 1000000 < 2 ^ 63"
  proof -
    have "int (rand_ms a (i - 1)) < 1000" using assms(4) by simp
    then show ?thesis using assms(3) by (simp add: power_0_left)
  qed
  from backoff_wait_in_range [OF this] show ?thesis
    using assms(3) by (simp add: wait_before_def b power_0_left)
qed

text \<open>
  C4 fails on the code where \<open>base ^ i\<close> seconds overflow an \<^verbatim>\<open>int64\<close> of nanoseconds. With
  the base of 5 seconds and the cap of 2 minutes that \<^verbatim>\<open>logtailConn\<close> uses, and 16 attempts
  at an action that always fails, the claim's duration for the 15th sleep is the cap,
  \<open>min (5 ^ 15 s + 500 ms) (2 min)\<close>. The code computes \<open>5 ^ 15 * 10 ^ 9\<close> modulo \<open>2 ^ 64\<close>, a negative
  duration, which is not above the cap and is passed to the sleeper as it is.
\<close>

theorem retry_backoff_overflow:
  "retry (logged (example_args 16 5000000000 120000000000 failing)) ([], 0)
     = (Some (Error ''refused''),
        [Invoked (Some (Error ''refused'')), Slept 5500000000,
         Invoked (Some (Error ''refused'')), Slept 25500000000,
         Invoked (Some (Error ''refused'')), Slept 120000000000,
         Invoked (Some (Error ''refused'')), Slept 120000000000,
         Invoked (Some (Error ''refused'')), Slept 120000000000,
         Invoked (Some (Error ''refused'')), Slept 120000000000,
         Invoked (Some (Error ''refused'')), Slept 120000000000,
         Invoked (Some (Error ''refused'')), Slept 120000000000,
         Invoked (Some (Error ''refused'')), Slept 120000000000,
         Invoked (Some (Error ''refused'')), Slept 120000000000,
         Invoked (Some (Error ''refused'')), Slept 120000000000,
         Invoked (Some (Error ''refused'')), Slept 120000000000,
         Invoked (Some (Error ''refused'')), Slept 120000000000,
         Invoked (Some (Error ''refused'')), Slept 120000000000,
         Invoked (Some (Error ''refused'')), Slept 12070834051790448384,
         Invoked (Some (Error ''refused''))], 16)
   \<and> sint (12070834051790448384 :: duration) = - 6375910021919103232
   \<and> baseInterval 5000000000 ^ 15 = 30517578125
   \<and> min (int (baseInterval 5000000000 ^ 15) * 1000000000 + 500 * 1000000) (sint (120000000000 :: duration))
       = 120000000000"
  by (simp add: retry_def retry_loop.simps logged_sel ex_sel wait_before_logged wait_before_def base5
      backoff_wait_def pow_duration_def Second_def Millisecond_def word_sless_alt
      logged_do_def logged_sleeper_def failing_def no_sleep_def)

subsection \<open>\<^verbatim>\<open>msg.Log\<close>: the records of a batch\<close>

lemma log_values_sink:
  "log_values parse flds level vs snk = snk @ log_values parse flds level vs []"
proof (induction vs arbitrary: snk)
  case Nil
  show ?case by simp
next
  case (Cons v vs)
  show ?case
    by (cases "parse level")
      (simp_all add: Let_def emit_def Cons.IH [of "snk @ _"] Cons.IH [of "[_]"] Cons.IH [of "[_, _]"])
qed

lemma log_values_parsed:
  "parse level = Some lvl \<Longrightarrow>
   log_values parse flds level vs snk
     = snk @ map (\<lambda>v. \<lparr>Data = flds, Time = Some (fst (Atoi (fst v))), Level = lvl, Message = snd v\<rparr>) vs"
  by (induction vs arbitrary: snk) (simp_all add: Let_def emit_def Unix_def)

lemma log_values_unparsed:
  "parse level = None \<Longrightarrow>
   log_values parse flds level vs snk
     = snk @ concat (map (\<lambda>v.
         [\<lparr>Data = flds, Time = Some (fst (Atoi (fst v))), Level = InfoLevel, Message = snd v\<rparr>,
          \<lparr>Data = flds, Time = Some (fst (Atoi (fst v))), Level = WarnLevel,
            Message = ''last message had unknown level '' @ level\<rparr>]) vs)"
  by (induction vs arbitrary: snk) (simp_all add: Let_def emit_def Unix_def)

lemma log_values_concat:
  "log_values parse flds level vs snk
     = snk @ concat (map (\<lambda>v. log_values parse flds level [v] []) vs)"
proof (cases "parse level")
  case None
  show ?thesis
    using None by (simp add: log_values_unparsed del: log_values.simps)
next
  case (Some lvl)
  have "map (\<lambda>v. \<lparr>Data = flds, Time = Some (fst (Atoi (fst v))), Level = lvl, Message = snd v\<rparr>) vs
      = concat (map (\<lambda>v. [\<lparr>Data = flds, Time = Some (fst (Atoi (fst v))), Level = lvl, Message = snd v\<rparr>]) vs)"
    by (induction vs) simp_all
  with Some show ?thesis
    by (simp add: log_values_parsed del: log_values.simps)
qed

lemma log_streams_step:
  "log_streams parse level0 (stream # rest) snk
     = log_streams parse (level_of stream) rest
         (log_values parse (fields_of stream) (level_of stream) (Values stream) snk)"
proof (cases "Stream stream ''level''")
  case None
  then have "(labelsToLogrusFields (Stream stream))(''level'' := None) = labelsToLogrusFields (Stream stream)"
    by (auto simp: labelsToLogrusFields_def)
  with None show ?thesis by (simp add: level_of_def fields_of_def)
next
  case (Some v)
  then show ?thesis by (simp add: level_of_def fields_of_def)
qed

lemma log_streams_concat:
  "snd (log_streams parse level0 streams snk)
     = snk @ concat (map (\<lambda>st. log_values parse (fields_of st) (level_of st) (Values st) []) streams)"
proof (induction streams arbitrary: level0 snk)
  case Nil
  show ?case by simp
next
  case (Cons st streams)
  show ?case
    by (simp add: log_streams_step Cons.IH log_values_sink [of _ _ _ _ snk] del: log_streams.simps)
qed

lemma log_dropped_map:
  "log_dropped ds snk
     = snk @ map (\<lambda>d. \<lparr>Data = labelsToLogrusFields (Labels d), Time = Some (fst (Atoi (Timestamp d))),
                           Level = WarnLevel, Message = ''dropped''\<rparr>) ds"
  by (induction ds arbitrary: snk) (simp_all add: Let_def emit_def Unix_def)

lemma Log_only:
  "Log parse (only st) snk = log_values parse (fields_of st) (level_of st) (Values st) snk"
  by (simp add: Log_def only_def log_streams_step del: log_streams.simps(2))

lemma Log_only_dropped:
  "Log parse (only_dropped ds) snk
     = snk @ map (\<lambda>d. \<lparr>Data = labelsToLogrusFields (Labels d), Time = Some (fst (Atoi (Timestamp d))),
                           Level = WarnLevel, Message = ''dropped''\<rparr>) ds"
  by (simp add: Log_def only_dropped_def log_dropped_map)

lemma log_streams_entries:
  "snd (log_streams parse level0 streams snk)
     = snk @ concat (map (\<lambda>st. Log parse (only st) []) streams)"
  by (simp add: log_streams_concat Log_only)

lemma Log_batch:
  "Log parse m snk
     = snk @ concat (map (\<lambda>st. Log parse (only st) []) (Streams m))
           @ Log parse (only_dropped (DroppedEntries m)) []"
proof -
  have "Log parse m snk
      = log_dropped (DroppedEntries m) (snk @ concat (map (\<lambda>st. Log parse (only st) []) (Streams m)))"
    by (simp add: Log_def [of parse m snk] log_streams_entries)
  then show ?thesis
    by (simp add: log_dropped_map Log_only_dropped)
qed

lemma with_Values:
  "Values (st\<lparr>Values := vs\<rparr>) = vs"
  "fields_of (st\<lparr>Values := vs\<rparr>) = fields_of st"
  "level_of (st\<lparr>Values := vs\<rparr>) = level_of st"
  by (simp_all add: fields_of_def level_of_def)

lemma Log_only_values:
  "Log parse (only st) []
     = concat (map (\<lambda>v. Log parse (only (st\<lparr>Values := [v]\<rparr>)) []) (Values st))"
proof -
  have "Log parse (only st) []
     = concat (map (\<lambda>v. log_values parse (fields_of st) (level_of st) [v] []) (Values st))"
    by (simp add: Log_only log_values_concat [of _ _ _ "Values st" "[]"])
  then show ?thesis
    by (simp add: Log_only with_Values)
qed

lemma Log_dropped_each:
  "Log parse (only_dropped ds) [] = concat (map (\<lambda>d. Log parse (only_dropped [d]) []) ds)"
  by (induction ds) (simp_all add: Log_only_dropped)

lemma Log_one_value:
  "Log parse (only (st\<lparr>Values := [v]\<rparr>)) []
     = (case parse (level_of st) of
          Some lvl \<Rightarrow> [\<lparr>Data = fields_of st, Time = Some (fst (Atoi (fst v))), Level = lvl, Message = snd v\<rparr>]
        | None \<Rightarrow>
            [\<lparr>Data = fields_of st, Time = Some (fst (Atoi (fst v))), Level = InfoLevel, Message = snd v\<rparr>,
             \<lparr>Data = fields_of st, Time = Some (fst (Atoi (fst v))), Level = WarnLevel,
               Message = ''last message had unknown level '' @ level_of st\<rparr>])"
  by (cases "parse (level_of st)")
    (simp_all add: Log_only with_Values log_values_parsed log_values_unparsed del: log_values.simps)

lemma Atoi_syntax: "snd (Atoi s) = Some ErrSyntax \<Longrightarrow> fst (Atoi s) = 0"
  by (auto simp: Atoi_def ParseInt_def Let_def split: if_splits prod.splits)

lemma Atoi_range:
  "snd (Atoi s) = Some ErrRange \<Longrightarrow> fst (Atoi s) = (if hd s = CHR ''-'' then - (2 ^ 63) else 2 ^ 63 - 1)"
  by (auto simp: Atoi_def ParseInt_def Let_def split: if_splits prod.splits)

lemmas parse_defs = ParseInt_def ParseUint_def is_digit_def digit_val_def Atoi_def Let_def

lemma Atoi_examples:
  "Atoi ''200'' = (200, None)"
  "Atoi ''300'' = (300, None)"
  "Atoi ''100'' = (100, None)"
  "Atoi ''abc'' = (0, Some ErrSyntax)"
  "Atoi ''9223372036854775808'' = (9223372036854775807, Some ErrRange)"
  "Atoi ''-9223372036854775809'' = (- 9223372036854775808, Some ErrRange)"
  by (simp_all add: parse_defs)

lemma ParseInt_examples:
  "ParseInt ''200'' = (200, None)"
  "ParseInt ''-5'' = (- 5, None)"
  "ParseInt ''+7'' = (7, None)"
  "ParseInt [] = (0, Some ErrSyntax)"
  "ParseInt ''-'' = (0, Some ErrSyntax)"
  "ParseInt ''1_000'' = (0, Some ErrSyntax)"
  "ParseInt ''12a'' = (0, Some ErrSyntax)"
  "ParseInt ''9223372036854775807'' = (9223372036854775807, None)"
  "ParseInt ''-9223372036854775808'' = (- 9223372036854775808, None)"
  "ParseInt ''18446744073709551616'' = (9223372036854775807, Some ErrRange)"
  by (simp_all add: parse_defs)

lemma example_levels:
  "level_of warn_stream = ''warn''" "level_of loud_stream = ''loud''"
  "level_of plain_stream = []" "level_of huge_stream = ''info''"
  "ParseLevel_lower ''warn'' = Some WarnLevel" "ParseLevel_lower ''loud'' = None"
  "ParseLevel_lower [] = None" "ParseLevel_lower ''info'' = Some InfoLevel"
  by (simp_all add: level_of_def warn_stream_def loud_stream_def plain_stream_def huge_stream_def
      ParseLevel_lower_def)

lemma example_fields:
  "fields_of warn_stream = [''job'' \<mapsto> StringValue ''x'']"
  "fields_of loud_stream = Map.empty"
  "fields_of plain_stream = [''job'' \<mapsto> StringValue ''y'']"
  "fields_of huge_stream = Map.empty"
  by (auto simp: fields_of_def labelsToLogrusFields_def warn_stream_def loud_stream_def
      plain_stream_def huge_stream_def fun_eq_iff)

lemma example_values:
  "Values warn_stream = [(''200'', ''hello'')]"
  "Values loud_stream = [(''abc'', ''second''), (''100'', ''first'')]"
  "Values plain_stream = [(''300'', ''plain'')]"
  "Values huge_stream = [(''9223372036854775808'', ''late'')]"
  by (simp_all add: warn_stream_def loud_stream_def plain_stream_def huge_stream_def)

text \<open>
  C6. The records of a batch are those of its stream entries, one entry after the other,
  then those of its dropped entries. An entry whose level string (the value of its
  \<^verbatim>\<open>level\<close> label) parses as a level yields one record for each of its values, at that level;
  an entry whose level string does not parse yields, for each value, one record at \<^verbatim>\<open>info\<close>
  followed by one warning that quotes the level string. In both cases the field map of
  the records is the label set without \<^verbatim>\<open>level\<close>.
\<close>

theorem Log_level:
  "Log parse m snk
     = snk @ concat (map (\<lambda>st. Log parse (only st) []) (Streams m))
           @ Log parse (only_dropped (DroppedEntries m)) []
   \<and> (parse (level_of st) = Some lvl \<longrightarrow>
        Log parse (only st) []
          = map (\<lambda>v. \<lparr>Data = fields_of st, Time = Some (fst (Atoi (fst v))),
                        Level = lvl, Message = snd v\<rparr>) (Values st))
   \<and> (parse (level_of st) = None \<longrightarrow>
        Log parse (only st) []
          = concat (map (\<lambda>v.
              [\<lparr>Data = fields_of st, Time = Some (fst (Atoi (fst v))), Level = InfoLevel,
                 Message = snd v\<rparr>,
               \<lparr>Data = fields_of st, Time = Some (fst (Atoi (fst v))), Level = WarnLevel,
                 Message = ''last message had unknown level '' @ level_of st\<rparr>]) (Values st)))
   \<and> level_of st = (case Stream st ''level'' of Some l \<Rightarrow> l | None \<Rightarrow> [])
   \<and> fields_of st ''level'' = None
   \<and> (k \<noteq> ''level'' \<longrightarrow> fields_of st k = map_option StringValue (Stream st k))"
proof (intro conjI impI)
  show "Log parse m snk
     = snk @ concat (map (\<lambda>st. Log parse (only st) []) (Streams m))
           @ Log parse (only_dropped (DroppedEntries m)) []"
    by (rule Log_batch)
next
  assume "parse (level_of st) = Some lvl"
  then show "Log parse (only st) []
          = map (\<lambda>v. \<lparr>Data = fields_of st, Time = Some (fst (Atoi (fst v))),
                        Level = lvl, Message = snd v\<rparr>) (Values st)"
    by (simp add: Log_only log_values_parsed)
next
  assume "parse (level_of st) = None"
  then show "Log parse (only st) []
          = concat (map (\<lambda>v.
              [\<lparr>Data = fields_of st, Time = Some (fst (Atoi (fst v))), Level = InfoLevel,
                 Message = snd v\<rparr>,
               \<lparr>Data = fields_of st, Time = Some (fst (Atoi (fst v))), Level = WarnLevel,
                 Message = ''last message had unknown level '' @ level_of st\<rparr>]) (Values st))"
    by (simp add: Log_only log_values_unparsed)
next
  show "level_of st = (case Stream st ''level'' of Some l \<Rightarrow> l | None \<Rightarrow> [])"
    by (simp add: level_of_def)
next
  show "fields_of st ''level'' = None"
    by (simp add: fields_of_def)
next
  assume "k \<noteq> ''level''"
  then show "fields_of st k = map_option StringValue (Stream st k)"
    by (simp add: fields_of_def labelsToLogrusFields_def)
qed

text \<open>
  The entry of the specification's scenario gives one record at \<^verbatim>\<open>warn\<close> with the field
  \<^verbatim>\<open>job\<close> only; an entry with the level \<^verbatim>\<open>loud\<close> gives an \<^verbatim>\<open>info\<close> record and a warning for each
  of its two values.
\<close>

theorem Log_level_witness:
  "ParseLevel_lower (level_of warn_stream) = Some WarnLevel
   \<and> Log ParseLevel_lower (only warn_stream) []
       = [\<lparr>Data = [''job'' \<mapsto> StringValue ''x''], Time = Some 200, Level = WarnLevel,
            Message = ''hello''\<rparr>]
   \<and> ParseLevel_lower (level_of loud_stream) = None
   \<and> Log ParseLevel_lower (only loud_stream) []
       = [\<lparr>Data = Map.empty, Time = Some 0, Level = InfoLevel, Message = ''second''\<rparr>,
          \<lparr>Data = Map.empty, Time = Some 0, Level = WarnLevel,
            Message = ''last message had unknown level loud''\<rparr>,
          \<lparr>Data = Map.empty, Time = Some 100, Level = InfoLevel, Message = ''first''\<rparr>,
          \<lparr>Data = Map.empty, Time = Some 100, Level = WarnLevel,
            Message = ''last message had unknown level loud''\<rparr>]
   \<and> ''job'' \<noteq> ''level''
   \<and> fields_of warn_stream ''job'' = Some (StringValue ''x'')
   \<and> fields_of warn_stream ''level'' = None"
proof -
  have p: "ParseLevel_lower (level_of warn_stream) = Some WarnLevel"
    and q: "ParseLevel_lower (level_of loud_stream) = None"
    by (simp_all add: example_levels)
  have k: "''job'' \<noteq> ''level''" by simp
  have s: "Stream warn_stream ''job'' = Some ''x''" by (simp add: warn_stream_def)
  from Log_level [where parse = ParseLevel_lower and st = warn_stream and lvl = WarnLevel and k = "''job''"]
    p k
  have a: "Log ParseLevel_lower (only warn_stream) []
          = map (\<lambda>v. \<lparr>Data = fields_of warn_stream, Time = Some (fst (Atoi (fst v))),
                        Level = WarnLevel, Message = snd v\<rparr>) (Values warn_stream)"
    and b: "fields_of warn_stream ''job'' = map_option StringValue (Stream warn_stream ''job'')"
    and c: "fields_of warn_stream ''level'' = None"
    by blast+
  from Log_level [where parse = ParseLevel_lower and st = loud_stream] q
  have d: "Log ParseLevel_lower (only loud_stream) []
          = concat (map (\<lambda>v.
              [\<lparr>Data = fields_of loud_stream, Time = Some (fst (Atoi (fst v))), Level = InfoLevel,
                 Message = snd v\<rparr>,
               \<lparr>Data = fields_of loud_stream, Time = Some (fst (Atoi (fst v))), Level = WarnLevel,
                 Message = ''last message had unknown level '' @ level_of loud_stream\<rparr>])
              (Values loud_stream))"
    by blast
  show ?thesis
    using p q a b c d s by (simp add: example_levels example_fields example_values Atoi_examples)
qed

text \<open>
  C7. Rendering is a homomorphism on entries: the records of a batch are the
  concatenation of the records of each of its stream entries rendered alone, followed by
  those of the dropped entries. Inside the loop the records of an entry come after those
  of the entries before it and are the same whatever these were, and whatever value the
  variable \<^verbatim>\<open>level\<close> holds when the loop starts; they are a function of the entry's field
  map, level string and values.
\<close>

theorem Log_per_entry:
  "Log parse m snk
     = snk @ concat (map (\<lambda>st. Log parse (only st) []) (Streams m))
           @ Log parse (only_dropped (DroppedEntries m)) []
   \<and> snd (log_streams parse level0 (before @ st # after) snk)
     = snd (log_streams parse level0 before snk) @ Log parse (only st) []
         @ concat (map (\<lambda>s. Log parse (only s) []) after)
   \<and> snd (log_streams parse level0 streams snk) = snd (log_streams parse [] streams snk)
   \<and> Log parse (only st) [] = log_values parse (fields_of st) (level_of st) (Values st) []"
proof -
  have "snd (log_streams parse level0 (before @ st # after) snk)
     = snd (log_streams parse level0 before snk) @ Log parse (only st) []
         @ concat (map (\<lambda>s. Log parse (only s) []) after)"
    by (simp add: log_streams_entries [of parse level0])
  moreover have "snd (log_streams parse level0 streams snk) = snd (log_streams parse [] streams snk)"
    by (simp add: log_streams_entries [of parse _ streams snk])
  ultimately show ?thesis
    using Log_batch [of parse m snk] Log_only [of parse st "[]"] by simp
qed

text \<open>
  An entry without a \<^verbatim>\<open>level\<close> label after an entry at \<^verbatim>\<open>warn\<close> is rendered with the empty
  level string, not at \<^verbatim>\<open>warn\<close>.
\<close>

lemma Log_level_does_not_leak:
  "Log ParseLevel_lower \<lparr>Streams = [warn_stream, plain_stream], DroppedEntries = []\<rparr> []
     = [\<lparr>Data = [''job'' \<mapsto> StringValue ''x''], Time = Some 200, Level = WarnLevel,
          Message = ''hello''\<rparr>,
        \<lparr>Data = [''job'' \<mapsto> StringValue ''y''], Time = Some 300, Level = InfoLevel,
          Message = ''plain''\<rparr>,
        \<lparr>Data = [''job'' \<mapsto> StringValue ''y''], Time = Some 300, Level = WarnLevel,
          Message = ''last message had unknown level ''\<rparr>]"
  by (simp add: Log_batch [of _ "\<lparr>Streams = [warn_stream, plain_stream], DroppedEntries = []\<rparr>"]
      Log_only Log_only_dropped log_values_parsed log_values_unparsed
      example_levels example_fields example_values Atoi_examples del: log_values.simps)

text \<open>
  C8. The records of a stream entry are the concatenation, in the order of its values as
  received, of the records of each value: the record with the value's time and text,
  followed by the warning about the level when the level string does not parse. No value
  is dropped, repeated or moved.
\<close>

theorem Log_order:
  "Log parse m snk
     = snk @ concat (map (\<lambda>st. Log parse (only st) []) (Streams m))
           @ Log parse (only_dropped (DroppedEntries m)) []
   \<and> Log parse (only st) []
     = concat (map (\<lambda>v. Log parse (only (st\<lparr>Values := [v]\<rparr>)) []) (Values st))
   \<and> map (\<lambda>r. (Time r, Message r)) (Log parse (only (st\<lparr>Values := [v]\<rparr>)) [])
     = (case parse (level_of st) of
          Some lvl \<Rightarrow> [(Some (fst (Atoi (fst v))), snd v)]
        | None \<Rightarrow> [(Some (fst (Atoi (fst v))), snd v),
                    (Some (fst (Atoi (fst v))), ''last message had unknown level '' @ level_of st)])"
proof -
  have "map (\<lambda>r. (Time r, Message r)) (Log parse (only (st\<lparr>Values := [v]\<rparr>)) [])
     = (case parse (level_of st) of
          Some lvl \<Rightarrow> [(Some (fst (Atoi (fst v))), snd v)]
        | None \<Rightarrow> [(Some (fst (Atoi (fst v))), snd v),
                    (Some (fst (Atoi (fst v))), ''last message had unknown level '' @ level_of st)])"
    by (cases "parse (level_of st)") (simp_all add: Log_one_value)
  then show ?thesis
    using Log_batch [of parse m snk] Log_only_values [of parse st] by simp
qed

text \<open>
  C9, as the code has it. Whatever its timestamp string, every value of every stream entry
  and every dropped entry of a batch yields its records: at least one for a value, the
  first with the value's text, and one for a dropped entry. The time of each record is the
  number that \<^verbatim>\<open>Atoi\<close> returns for the timestamp string: 0, the epoch, when \<^verbatim>\<open>Atoi\<close> reports a
  syntax error, but the nearest bound of \<^verbatim>\<open>int64\<close> when it reports a range error.
\<close>

theorem Log_malformed_timestamp:
  "Log parse m snk
     = snk @ concat (map (\<lambda>st. concat (map (\<lambda>v. Log parse (only (st\<lparr>Values := [v]\<rparr>)) [])
                                          (Values st))) (Streams m))
           @ concat (map (\<lambda>d. Log parse (only_dropped [d]) []) (DroppedEntries m))
   \<and> Log parse (only (st\<lparr>Values := [v]\<rparr>)) [] \<noteq> []
   \<and> Message (hd (Log parse (only (st\<lparr>Values := [v]\<rparr>)) [])) = snd v
   \<and> map Time (Log parse (only (st\<lparr>Values := [v]\<rparr>)) [])
       = replicate (length (Log parse (only (st\<lparr>Values := [v]\<rparr>)) [])) (Some (fst (Atoi (fst v))))
   \<and> Log parse (only_dropped [d]) []
       = [\<lparr>Data = labelsToLogrusFields (Labels d), Time = Some (fst (Atoi (Timestamp d))),
           Level = WarnLevel, Message = ''dropped''\<rparr>]
   \<and> (snd (Atoi s) = Some ErrSyntax \<longrightarrow> fst (Atoi s) = 0)
   \<and> (snd (Atoi s) = Some ErrRange \<longrightarrow>
        fst (Atoi s) = (if hd s = CHR ''-'' then - (2 ^ 63) else 2 ^ 63 - 1))"
proof -
  have "Log parse m snk
     = snk @ concat (map (\<lambda>st. Log parse (only st) []) (Streams m))
           @ Log parse (only_dropped (DroppedEntries m)) []"
    by (rule Log_batch)
  also have "(\<lambda>st. Log parse (only st) [])
      = (\<lambda>st. concat (map (\<lambda>v. Log parse (only (st\<lparr>Values := [v]\<rparr>)) []) (Values st)))"
    by (rule ext) (rule Log_only_values)
  also have "Log parse (only_dropped (DroppedEntries m)) []
      = concat (map (\<lambda>d. Log parse (only_dropped [d]) []) (DroppedEntries m))"
    by (rule Log_dropped_each)
  finally have batch: "Log parse m snk
     = snk @ concat (map (\<lambda>st. concat (map (\<lambda>v. Log parse (only (st\<lparr>Values := [v]\<rparr>)) [])
                                          (Values st))) (Streams m))
           @ concat (map (\<lambda>d. Log parse (only_dropped [d]) []) (DroppedEntries m))" .
  have val: "Log parse (only (st\<lparr>Values := [v]\<rparr>)) [] \<noteq> []
   \<and> Message (hd (Log parse (only (st\<lparr>Values := [v]\<rparr>)) [])) = snd v
   \<and> map Time (Log parse (only (st\<lparr>Values := [v]\<rparr>)) [])
       = replicate (length (Log parse (only (st\<lparr>Values := [v]\<rparr>)) [])) (Some (fst (Atoi (fst v))))"
    by (cases "parse (level_of st)") (simp_all add: Log_one_value)
  have dr: "Log parse (only_dropped [d]) []
       = [\<lparr>Data = labelsToLogrusFields (Labels d), Time = Some (fst (Atoi (Timestamp d))),
           Level = WarnLevel, Message = ''dropped''\<rparr>]"
    by (simp add: Log_only_dropped)
  show ?thesis
    using batch val dr Atoi_syntax [of s] Atoi_range [of s] by blast
qed

text \<open>
  A value with the timestamp \<^verbatim>\<open>abc\<close> is rendered at the epoch; the timestamp
  \<open>- 2 ^ 63 - 1\<close> is out of range and gives \<open>- 2 ^ 63\<close>.
\<close>

theorem Log_malformed_timestamp_witness:
  "snd (Atoi ''abc'') = Some ErrSyntax \<and> fst (Atoi ''abc'') = 0
   \<and> map Time (Log ParseLevel_lower (only (loud_stream\<lparr>Values := [(''abc'', ''second'')]\<rparr>)) [])
       = [Some 0, Some 0]
   \<and> Message (hd (Log ParseLevel_lower (only (loud_stream\<lparr>Values := [(''abc'', ''second'')]\<rparr>)) []))
       = ''second''
   \<and> snd (Atoi ''-9223372036854775809'') = Some ErrRange
   \<and> fst (Atoi ''-9223372036854775809'') = - (2 ^ 63)"
proof -
  have h1: "snd (Atoi ''abc'') = Some ErrSyntax"
    and h2: "snd (Atoi ''-9223372036854775809'') = Some ErrRange"
    by (simp_all add: Atoi_examples)
  have len: "length (Log ParseLevel_lower (only (loud_stream\<lparr>Values := [(''abc'', ''second'')]\<rparr>)) []) = 2"
    by (simp add: Log_one_value example_levels)
  from Log_malformed_timestamp [where s = "''abc''" and parse = ParseLevel_lower
      and st = loud_stream and v = "(''abc'', ''second'')"] h1
  have a: "fst (Atoi ''abc'') = 0"
    and b: "Message (hd (Log ParseLevel_lower (only (loud_stream\<lparr>Values := [(''abc'', ''second'')]\<rparr>)) []))
       = snd (''abc'', ''second'')"
    and c: "map Time (Log ParseLevel_lower (only (loud_stream\<lparr>Values := [(''abc'', ''second'')]\<rparr>)) [])
       = replicate (length (Log ParseLevel_lower (only (loud_stream\<lparr>Values := [(''abc'', ''second'')]\<rparr>)) []))
           (Some (fst (Atoi (fst (''abc'', ''second'')))))"
    by blast+
  from Log_malformed_timestamp [where s = "''-9223372036854775809''"] h2
  have d: "fst (Atoi ''-9223372036854775809'')
      = (if hd ''-9223372036854775809'' = CHR ''-'' then - (2 ^ 63) else 2 ^ 63 - 1)"
    by blast
  show ?thesis
    using h1 h2 a b c d by (simp add: len numeral_2_eq_2)
qed

text \<open>
  C9 as stated fails for timestamps out of the range of \<^verbatim>\<open>int64\<close>: \<^verbatim>\<open>Atoi\<close> fails on them, and
  the records carry the largest or the smallest \<^verbatim>\<open>int64\<close> as their time, not the epoch.
\<close>

theorem Log_malformed_timestamp_counterexample:
  "snd (Atoi ''9223372036854775808'') = Some ErrRange
   \<and> Values huge_stream = [(''9223372036854775808'', ''late'')]
   \<and> map Time (Log ParseLevel_lower (only huge_stream) []) = [Some 9223372036854775807]
   \<and> map Message (Log ParseLevel_lower (only huge_stream) []) = [''late'']
   \<and> snd (Atoi (Timestamp tiny_dropped)) = Some ErrRange
   \<and> map Time (Log ParseLevel_lower (only_dropped [tiny_dropped]) []) = [Some (- 9223372036854775808)]"
  by (simp add: Log_only Log_only_dropped log_values_parsed example_levels example_values
      Atoi_examples tiny_dropped_def del: log_values.simps)

subsection \<open>The tracker\<close>

lemma ts_fold_Set_ts:
  "ts (fold Set_ts vs tst) = (case filter (\<lambda>v. 1 \<le> v) vs of [] \<Rightarrow> ts tst | p # ps \<Rightarrow> last (p # ps))"
proof (induction vs rule: rev_induct)
  case Nil
  show ?case by simp
next
  case (snoc v vs)
  show ?case
  proof (cases "v < 1")
    case True
    with snoc show ?thesis by (simp add: Set_ts_def)
  next
    case False
    then show ?thesis
      by (cases "filter (\<lambda>v. 1 \<le> v) vs") (simp_all add: Set_ts_def)
  qed
qed

text \<open>
  C3. \<^verbatim>\<open>Set\<close> with a value below 1 leaves the tracker as it is; with a value of at least 1
  it overwrites the stored value, whatever that was. After any sequence of \<^verbatim>\<open>Set\<close>s on a
  fresh tracker, \<^verbatim>\<open>TimeOrNow\<close> returns the current time when none of the values was positive,
  and otherwise the last positive value (not the largest), as nanoseconds since the
  epoch, plus one millisecond; this is the stored value plus one millisecond.
\<close>

theorem tracker_last_write_wins:
  "(v < 1 \<longrightarrow> Set_ts v tst = tst)
   \<and> (1 \<le> v \<longrightarrow> Set_ts v tst = tst\<lparr>ts := v\<rparr>)
   \<and> TimeOrNow now (fold Set_ts vs fresh)
       = (case filter (\<lambda>v. 1 \<le> v) vs of [] \<Rightarrow> now | p # ps \<Rightarrow> last (p # ps) + 1000000)
   \<and> TimeOrNow now (fold Set_ts vs fresh)
       = (if ts (fold Set_ts vs fresh) = 0 then now else ts (fold Set_ts vs fresh) + 1000000)"
proof -
  have c: "TimeOrNow now (fold Set_ts vs fresh)
       = (case filter (\<lambda>v. 1 \<le> v) vs of [] \<Rightarrow> now | p # ps \<Rightarrow> last (p # ps) + 1000000)
     \<and> TimeOrNow now (fold Set_ts vs fresh)
       = (if ts (fold Set_ts vs fresh) = 0 then now else ts (fold Set_ts vs fresh) + 1000000)"
  proof (cases "filter (\<lambda>v. 1 \<le> v) vs" rule: rev_cases)
    case Nil
    then show ?thesis by (simp add: TimeOrNow_def ts_fold_Set_ts fresh_def)
  next
    case (snoc ps p)
    then have "p \<in> set (filter (\<lambda>v. 1 \<le> v) vs)" by simp
    then have p: "1 \<le> p" by simp
    have "ts (fold Set_ts vs fresh) = p"
      using snoc by (cases ps) (simp_all add: ts_fold_Set_ts)
    with p snoc show ?thesis
      by (cases ps) (simp_all add: TimeOrNow_def Unix_def)
  qed
  then show ?thesis by (simp add: Set_ts_def)
qed

text \<open>
  \<^verbatim>\<open>Set(0)\<close> after \<^verbatim>\<open>Set(1000)\<close> changes nothing; a fresh tracker gives the current time; after
  \<^verbatim>\<open>Set(1000)\<close>, \<^verbatim>\<open>Set(0)\<close>, \<^verbatim>\<open>Set(-5)\<close> the result is 1000 ns plus 1 ms; \<^verbatim>\<open>Set(5)\<close> after
  \<^verbatim>\<open>Set(1000)\<close> takes the tracker back to 5.
\<close>

theorem tracker_last_write_wins_witness:
  "(0 :: int) < 1 \<and> Set_ts 0 (Set_ts 1000 fresh) = Set_ts 1000 fresh
   \<and> (1 :: int) \<le> 1000 \<and> Set_ts 1000 fresh = \<lparr>ts = 1000\<rparr>
   \<and> TimeOrNow 77 fresh = 77
   \<and> TimeOrNow 77 (fold Set_ts [1000, 0, - 5] fresh) = 1001000
   \<and> TimeOrNow 77 (fold Set_ts [1000, 5] fresh) = 1000005"
proof -
  have h1: "(0 :: int) < 1" and h2: "(1 :: int) \<le> 1000" by simp_all
  from tracker_last_write_wins [of 0 "Set_ts 1000 fresh"] h1
  have a: "Set_ts 0 (Set_ts 1000 fresh) = Set_ts 1000 fresh" by blast
  from tracker_last_write_wins [of 1000 fresh] h2
  have b: "Set_ts 1000 fresh = fresh\<lparr>ts := 1000\<rparr>" by blast
  from tracker_last_write_wins [of _ _ 77 "[]"]
  have c: "TimeOrNow 77 (fold Set_ts [] fresh)
       = (case filter (\<lambda>v. 1 \<le> v) [] of [] \<Rightarrow> 77 | p # ps \<Rightarrow> last (p # ps) + 1000000)"
    by blast
  from tracker_last_write_wins [of _ _ 77 "[1000, 0, - 5]"]
  have d: "TimeOrNow 77 (fold Set_ts [1000, 0, - 5] fresh)
       = (case filter (\<lambda>v. 1 \<le> v) [1000, 0, - 5] of [] \<Rightarrow> 77 | p # ps \<Rightarrow> last (p # ps) + 1000000)"
    by blast
  from tracker_last_write_wins [of _ _ 77 "[1000, 5]"]
  have e: "TimeOrNow 77 (fold Set_ts [1000, 5] fresh)
       = (case filter (\<lambda>v. 1 \<le> v) [1000, 5] of [] \<Rightarrow> 77 | p # ps \<Rightarrow> last (p # ps) + 1000000)"
    by blast
  have f: "fold Set_ts [] fresh = fresh" by simp
  show ?thesis
    using a b c [unfolded f] d e by (simp add: fresh_def)
qed

subsection \<open>The consumer\<close>

lemma latest_of_fold: "latest_of t ss = fold max (map LatestTimestamp ss) t"
  by (induction ss arbitrary: t) (simp_all add: Let_def max_def)

lemma latest_of_Max: "latest_of t ss = Max (insert t (LatestTimestamp ` set ss))"
proof -
  have "Max (set (t # map LatestTimestamp ss)) = fold max (map LatestTimestamp ss) t"
    by (rule Max.set_eq_fold)
  then show ?thesis by (simp add: latest_of_fold)
qed

text \<open>
  C5. For a frame that decodes to the batch \<open>m\<close>, the consumer hands the records of \<open>m\<close> to
  the logger and sets the tracker to the largest of the latest timestamps of the stream
  entries of \<open>m\<close>, when that is positive; when no entry has a positive latest timestamp the
  tracker is left as it is. The dropped entries of the batch have no part in it. The
  latest timestamp of an entry is the timestamp of its first value when \<^verbatim>\<open>ParseInt\<close> accepts
  it, and 0 otherwise.
\<close>

theorem consume_watermark:
  "unmarshal message = Inr m \<Longrightarrow>
     logger (consume parse unmarshal message c) = Log parse m (logger c)
   \<and> latest (consume parse unmarshal message c)
       = (if Max (insert 0 (LatestTimestamp ` set (Streams m))) < 1 then latest c
          else (latest c)\<lparr>ts := Max (insert 0 (LatestTimestamp ` set (Streams m)))\<rparr>)
   \<and> ((\<forall>st \<in> set (Streams m). LatestTimestamp st < 1)
        \<longrightarrow> latest (consume parse unmarshal message c) = latest c)
   \<and> latest (consume parse (decode_as (m\<lparr>DroppedEntries := ds\<rparr>)) message c)
       = latest (consume parse unmarshal message c)
   \<and> LatestTimestamp st
       = (case Values st of [] \<Rightarrow> 0
          | v # vs \<Rightarrow> if snd (ParseInt (fst v)) = None then fst (ParseInt (fst v)) else 0)"
proof -
  assume u: "unmarshal message = Inr m"
  let ?M = "Max (insert 0 (LatestTimestamp ` set (Streams m)))"
  have l: "latest (consume parse unmarshal message c) = Set_ts ?M (latest c)"
    using u by (simp add: consume_def Let_def latest_of_Max)
  have d: "latest (consume parse (decode_as (m\<lparr>DroppedEntries := ds\<rparr>)) message c) = Set_ts ?M (latest c)"
    by (simp add: consume_def Let_def latest_of_Max decode_as_def)
  have z: "(\<forall>st \<in> set (Streams m). LatestTimestamp st < 1) \<longrightarrow> ?M < 1"
    by (auto simp: Max_less_iff)
  have lt: "LatestTimestamp st
       = (case Values st of [] \<Rightarrow> 0
          | v # vs \<Rightarrow> if snd (ParseInt (fst v)) = None then fst (ParseInt (fst v)) else 0)"
    by (auto simp: LatestTimestamp_def split: list.splits prod.splits option.splits)
  show ?thesis
    using u l d z lt by (simp add: consume_def Let_def Set_ts_def)
qed

lemma LatestTimestamp_examples:
  "LatestTimestamp warn_stream = 200" "LatestTimestamp loud_stream = 0"
  by (simp_all add: LatestTimestamp_def example_values ParseInt_examples parse_defs)

text \<open>
  The frame of the specification's scenario takes a fresh tracker to 200; a batch whose
  only timestamp does not parse leaves a tracker at 200 unchanged.
\<close>

theorem consume_watermark_witness:
  "decode_as scenario ''frame'' = Inr scenario
   \<and> latest (consume ParseLevel_lower (decode_as scenario) ''frame'' \<lparr>logger = [], latest = fresh\<rparr>)
       = \<lparr>ts = 200\<rparr>
   \<and> logger (consume ParseLevel_lower (decode_as scenario) ''frame'' \<lparr>logger = [], latest = fresh\<rparr>)
       = [\<lparr>Data = [''job'' \<mapsto> StringValue ''x''], Time = Some 200, Level = WarnLevel,
            Message = ''hello''\<rparr>]
   \<and> decode_as (only loud_stream) ''frame'' = Inr (only loud_stream)
   \<and> Streams (only loud_stream) = [loud_stream] \<and> LatestTimestamp loud_stream < 1
   \<and> latest (consume ParseLevel_lower (decode_as (only loud_stream)) ''frame''
               \<lparr>logger = [], latest = \<lparr>ts = 200\<rparr>\<rparr>)
       = \<lparr>ts = 200\<rparr>"
proof -
  have h1: "decode_as scenario ''frame'' = Inr scenario"
    and h2: "decode_as (only loud_stream) ''frame'' = Inr (only loud_stream)"
    by (simp_all add: decode_as_def)
  have h3: "\<forall>st \<in> set (Streams (only loud_stream)). LatestTimestamp st < 1"
    by (simp add: only_def LatestTimestamp_examples)
  have sc: "scenario = only warn_stream" by (simp add: scenario_def only_def)
  have lg: "Log ParseLevel_lower scenario []
       = [\<lparr>Data = [''job'' \<mapsto> StringValue ''x''], Time = Some 200, Level = WarnLevel,
            Message = ''hello''\<rparr>]"
    by (simp add: sc Log_only log_values_parsed example_levels example_fields example_values
        Atoi_examples del: log_values.simps)
  have mx: "Max (insert 0 (LatestTimestamp ` set (Streams scenario))) = 200"
    by (simp add: scenario_def LatestTimestamp_examples)
  from consume_watermark [where unmarshal = "decode_as scenario" and message = "''frame''"
      and m = scenario and parse = ParseLevel_lower and c = "\<lparr>logger = [], latest = fresh\<rparr>", OF h1]
  have a: "logger (consume ParseLevel_lower (decode_as scenario) ''frame'' \<lparr>logger = [], latest = fresh\<rparr>)
        = Log ParseLevel_lower scenario (logger \<lparr>logger = [], latest = fresh\<rparr>)"
    and b: "latest (consume ParseLevel_lower (decode_as scenario) ''frame'' \<lparr>logger = [], latest = fresh\<rparr>)
       = (if Max (insert 0 (LatestTimestamp ` set (Streams scenario))) < 1
          then latest \<lparr>logger = [], latest = fresh\<rparr>
          else (latest \<lparr>logger = [], latest = fresh\<rparr>)\<lparr>ts := Max (insert 0 (LatestTimestamp ` set (Streams scenario)))\<rparr>)"
    by blast+
  from consume_watermark [where unmarshal = "decode_as (only loud_stream)" and message = "''frame''"
      and m = "only loud_stream" and parse = ParseLevel_lower
      and c = "\<lparr>logger = [], latest = \<lparr>ts = 200\<rparr>\<rparr>", OF h2] h3
  have c: "latest (consume ParseLevel_lower (decode_as (only loud_stream)) ''frame''
               \<lparr>logger = [], latest = \<lparr>ts = 200\<rparr>\<rparr>)
       = latest \<lparr>logger = [], latest = \<lparr>ts = 200\<rparr>\<rparr>"
    by blast
  have h4: "Streams (only loud_stream) = [loud_stream]" "LatestTimestamp loud_stream < 1"
    by (simp_all add: only_def LatestTimestamp_examples)
  show ?thesis
    using h1 h2 h4 a b c by (simp add: lg mx fresh_def)
qed

subsection \<open>The connection\<close>

lemma dial_sel:
  "attempts (dial_args env since w) = 3"
  "interval (dial_args env since w) = 5000000000"
  "max_interval (dial_args env since w) = 120000000000"
  "rand_ms (dial_args env since w) = rand env w"
  "inexact_pow (dial_args env since w) = inexact env"
  "sleeper (dial_args env since w) = (\<lambda>d (w, conn). (Sleep env d w, conn))"
  "do (dial_args env since w) = (\<lambda>(w, conn). case DialContext env since w of
                            (Inl err, w') \<Rightarrow> (Some err, (w', None))
                          | (Inr c, w') \<Rightarrow> (None, (w', Some c)))"
  by (simp_all add: dial_args_def Second_def Minute_def)

lemma logtailConn_error_three_dials:
  assumes "url_Parse env = None" and "logtailConn env since w = (Inl errd, w')"
  shows "case retry (logged (dial_args env since w)) ([], (w, None)) of
           (r, tr, s') \<Rightarrow> r = Some errd \<and> length (invocations tr) = 3
                          \<and> None \<notin> set (invocations tr) \<and> length (sleeps tr) = 2"
proof -
  let ?a = "dial_args env since w"
  obtain r tr s' where run: "retry (logged ?a) ([], (w, None)) = (r, tr, s')"
    by (cases "retry (logged ?a) ([], (w, None))") auto
  then have loop: "retry_loop (logged ?a) 0 None ([], (w, None)) = (r, tr, s')"
    by (simp add: retry_def)
  have er: "retry ?a (w, None) = (r, s')"
    using retry_loop_erase [OF refl refl loop] by (simp add: retry_def)
  with assms have r: "r = Some errd"
    by (auto simp: logtailConn_def split: option.splits prod.splits)
  from retry_loop_logged [OF refl refl loop] obtain cs where cs:
    "tr = schedule ?a 0 cs" "length cs \<le> nat (sint (attempts ?a))"
    "\<forall>e \<in> set (butlast cs). e \<noteq> None"
    "length cs < nat (sint (attempts ?a)) \<longrightarrow> cs \<noteq> [] \<and> last cs = None"
    "r = (if cs = [] then None else last cs)"
    by auto
  have inv: "invocations tr = cs" by (simp add: cs(1) invocations_schedule)
  have ne: "cs \<noteq> []" and l: "last cs = Some errd"
    using cs(5) r by (auto split: if_splits)
  have len: "length cs = 3"
    using cs(2,4) l by (simp add: dial_sel)
  have "set cs = set (butlast cs) \<union> {last cs}"
    using ne by (cases cs rule: rev_cases) auto
  then have nn: "None \<notin> set cs" using cs(3) l by auto
  have sl: "length (sleeps tr) = 2"
    by (simp add: cs(1) sleeps_schedule len)
  show ?thesis
    using r len nn sl by (simp add: run inv)
qed

lemma StreamLogsToLogger_dial_error:
  "logtailConn env (Now env w + sint (- tailFrom)) w = (Inl err, w1) \<Longrightarrow>
     StreamLogsToLogger env tailFrom w = Some (Returned (Some err), w1)"
  by (simp add: StreamLogsToLogger_def)

lemma StreamLogsToLogger_loop:
  "logtailConn env (Now env w + sint (- tailFrom)) w = (Inr conn, w1) \<Longrightarrow>
     StreamLogsToLogger env tailFrom w = read_loop env conn w1"
  by (simp add: StreamLogsToLogger_def)

lemma dial_loop_conn:
  "a = dial_args env since w0 \<Longrightarrow> retry_loop a i err st = (None, (w', conn')) \<Longrightarrow>
     int i < 3 \<or> err \<noteq> None \<Longrightarrow> \<exists>c. conn' = Some c"
proof (induction a i err st rule: retry_loop.induct)
  case (1 a i err st)
  note a = \<open>a = dial_args env since w0\<close>
  have att: "sint (attempts a) = 3" by (simp add: a dial_sel)
  show ?case
  proof (cases "int i < 3")
    case False
    then have "retry_loop a i err st = (err, st)"
      by (simp add: retry_loop.simps [of a i] att)
    with 1(3,4) False show ?thesis by simp
  next
    case True
    define s1 where "s1 = (if 0 < i then sleeper a (wait_before a i) st else st)"
    obtain w1 c1 where s1: "s1 = (w1, c1)" by (cases s1)
    obtain res w2 where d: "DialContext env since w1 = (res, w2)" by (cases "DialContext env since w1")
    show ?thesis
    proof (cases res)
      case (Inr c)
      then have "do a s1 = (None, (w2, Some c))"
        by (simp add: a dial_sel s1 d)
      then have "retry_loop a i err st = (None, (w2, Some c))"
        using True by (simp add: retry_loop.simps [of a i] att s1_def [symmetric])
      with 1(3) show ?thesis by auto
    next
      case (Inl e)
      then have step: "do a s1 = (Some e, (w2, None))"
        by (simp add: a dial_sel s1 d)
      then have eq: "retry_loop a i err st = retry_loop a (Suc i) (Some e) (w2, None)"
        using True by (simp add: retry_loop.simps [of a i] att s1_def [symmetric])
      have la: "int i < sint (attempts a)" using True by (simp add: att)
      show ?thesis
      proof (rule 1(1) [OF la refl _ refl a])
        show "(Some e, w2, None) = do a (if 0 < i then sleeper a (wait_before a i) st else st)"
          using step by (simp add: s1_def)
        show "retry_loop a (Suc i) (Some e) (w2, None) = (None, w', conn')"
          using eq 1(3) by simp
        show "int (Suc i) < 3 \<or> Some e \<noteq> None" by simp
      qed
    qed
  qed
qed

lemma logtailConn_conn:
  "logtailConn env since w = (Inr conn, w') \<Longrightarrow> \<exists>c. conn = Some c"
proof -
  assume l: "logtailConn env since w = (Inr conn, w')"
  then have u: "url_Parse env = None"
    by (auto simp: logtailConn_def split: option.splits)
  obtain r w1 c1 where run: "retry (dial_args env since w) (w, None) = (r, (w1, c1))"
    by (cases "retry (dial_args env since w) (w, None)") auto
  with l u have "r = None" "c1 = conn"
    by (auto simp: logtailConn_def split: option.splits)
  with run have "retry_loop (dial_args env since w) 0 None (w, None) = (None, (w1, conn))"
    by (simp add: retry_def)
  from dial_loop_conn [OF refl this] show ?thesis by simp
qed

text \<open>
  C2. Let a read from the connection fail with the error \<open>e\<close> while the context is not
  cancelled, and let \<^verbatim>\<open>logtailConn\<close> then be called for a new connection. If it fails, with
  whatever error, the loop, and so \<^verbatim>\<open>StreamLogsToLogger\<close>, returns \<open>e\<close>. If it succeeds, the loop
  does not return here: it goes on as the loop on the new connection, which is not \<^verbatim>\<open>nil\<close>, and
  the next read is from that connection. When the URL parses,
  a failure of \<^verbatim>\<open>logtailConn\<close> means that three dials were made, with two sleeps, and that all
  of them failed.
\<close>

theorem read_error_reconnect:
  assumes "ReadMessage env c w = (Inl e, w1)" and "\<not> ctx_Done env w1"
    and "logtailConn env (TimeOrNow (Now env (Warn env e w1)) (load_latest env (Warn env e w1)))
           (Warn env e w1) = (res, w3)"
  shows "(res = Inl errd \<longrightarrow> read_loop env (Some c) w = Some (Returned (Some e), w3))
       \<and> (res = Inr newconn \<longrightarrow>
            (\<exists>c'. newconn = Some c') \<and> read_loop env (Some c) w = read_loop env newconn w3)
       \<and> (res = Inl errd \<and> url_Parse env = None \<longrightarrow>
            (case retry (logged (dial_args env
                     (TimeOrNow (Now env (Warn env e w1)) (load_latest env (Warn env e w1)))
                     (Warn env e w1))) ([], (Warn env e w1, None)) of
               (r, tr, s') \<Rightarrow> r = Some errd \<and> length (invocations tr) = 3
                              \<and> None \<notin> set (invocations tr) \<and> length (sleeps tr) = 2))"
proof (intro conjI impI)
  assume "res = Inl errd"
  with assms show "read_loop env (Some c) w = Some (Returned (Some e), w3)"
    by (subst read_loop.simps) (simp add: Let_def)
next
  assume r: "res = Inr newconn"
  with assms(3) show "\<exists>c'. newconn = Some c'"
    by (intro logtailConn_conn) simp
  from r assms show "read_loop env (Some c) w = read_loop env newconn w3"
    by (subst read_loop.simps) (simp add: Let_def)
next
  assume "res = Inl errd \<and> url_Parse env = None"
  with assms(3) show "case retry (logged (dial_args env
                     (TimeOrNow (Now env (Warn env e w1)) (load_latest env (Warn env e w1)))
                     (Warn env e w1))) ([], (Warn env e w1, None)) of
               (r, tr, s') \<Rightarrow> r = Some errd \<and> length (invocations tr) = 3
                              \<and> None \<notin> set (invocations tr) \<and> length (sleeps tr) = 2"
    by (intro logtailConn_error_three_dials) simp_all
qed

lemma refusing_sel:
  "url_Parse refusing_env = None"
  "DialContext refusing_env = (\<lambda>since w. (Inl (Error ''refused''), Suc w))"
  "ReadMessage refusing_env = (\<lambda>c w. (Inl (Error ''closed''), w))"
  "ctx_Done refusing_env = (\<lambda>w. False)"
  "Sleep refusing_env = (\<lambda>d w. w)"
  "Now refusing_env = (\<lambda>w. 0)"
  "load_latest refusing_env = (\<lambda>w. fresh)"
  "Warn refusing_env = (\<lambda>err w. w)"
  "rand refusing_env = (\<lambda>w k. 500)"
  "inexact refusing_env = (\<lambda>b i. 0)"
  by (simp_all add: refusing_env_def)

lemma accepting_sel:
  "url_Parse accepting_env = None"
  "DialContext accepting_env = (\<lambda>since w. (Inr (Suc w), Suc w))"
  "ReadMessage accepting_env = (\<lambda>c w. (Inl (Error ''closed''), w))"
  "ctx_Done accepting_env = (\<lambda>w. 1 \<le> w)"
  "Sleep accepting_env = (\<lambda>d w. w)"
  "Now accepting_env = (\<lambda>w. 0)"
  "load_latest accepting_env = (\<lambda>w. fresh)"
  "Warn accepting_env = (\<lambda>err w. w)"
  "rand accepting_env = (\<lambda>w k. 500)"
  "inexact accepting_env = (\<lambda>b i. 0)"
  by (simp_all add: accepting_env_def refusing_env_def)

lemma refusing_logtailConn:
  "logtailConn refusing_env since w = (Inl (Error ''refused''), Suc (Suc (Suc w)))"
  by (simp add: logtailConn_def retry_def retry_loop.simps dial_sel refusing_sel)

lemma accepting_logtailConn:
  "logtailConn accepting_env since w = (Inr (Some (Suc w)), Suc w)"
  by (simp add: logtailConn_def retry_def retry_loop.simps dial_sel accepting_sel)

text \<open>
  Where every dial is refused, a failed read ends the loop with the error of the read after
  three dials; where the dial is accepted, the loop goes on with the new connection.
\<close>

theorem read_error_reconnect_witness:
  "ReadMessage refusing_env 7 0 = (Inl (Error ''closed''), 0)
   \<and> \<not> ctx_Done refusing_env 0
   \<and> logtailConn refusing_env 0 0 = (Inl (Error ''refused''), 3)
   \<and> read_loop refusing_env (Some 7) 0 = Some (Returned (Some (Error ''closed'')), 3)
   \<and> ReadMessage accepting_env 7 0 = (Inl (Error ''closed''), 0)
   \<and> \<not> ctx_Done accepting_env 0
   \<and> logtailConn accepting_env 0 0 = (Inr (Some 1), 1)
   \<and> read_loop accepting_env (Some 7) 0 = read_loop accepting_env (Some 1) 1"
proof -
  have t: "TimeOrNow 0 fresh = 0" by (simp add: TimeOrNow_def fresh_def)
  have r1: "ReadMessage refusing_env 7 0 = (Inl (Error ''closed''), 0)"
    and r2: "\<not> ctx_Done refusing_env 0"
    and r3: "logtailConn refusing_env
               (TimeOrNow (Now refusing_env (Warn refusing_env (Error ''closed'') 0))
                  (load_latest refusing_env (Warn refusing_env (Error ''closed'') 0)))
               (Warn refusing_env (Error ''closed'') 0) = (Inl (Error ''refused''), 3)"
    by (simp_all add: refusing_sel refusing_logtailConn numeral_3_eq_3)
  have a1: "ReadMessage accepting_env 7 0 = (Inl (Error ''closed''), 0)"
    and a2: "\<not> ctx_Done accepting_env 0"
    and a3: "logtailConn accepting_env
               (TimeOrNow (Now accepting_env (Warn accepting_env (Error ''closed'') 0))
                  (load_latest accepting_env (Warn accepting_env (Error ''closed'') 0)))
               (Warn accepting_env (Error ''closed'') 0) = (Inr (Some 1), 1)"
    by (simp_all add: accepting_sel accepting_logtailConn)
  from read_error_reconnect [OF r1 r2 r3, of "Error ''refused''"]
  have b: "read_loop refusing_env (Some 7) 0 = Some (Returned (Some (Error ''closed'')), 3)"
    by blast
  from read_error_reconnect [OF a1 a2 a3, of _ "Some 1"]
  have c: "read_loop accepting_env (Some 7) 0 = read_loop accepting_env (Some 1) 1"
    by blast
  show ?thesis
    using r1 r2 r3 a1 a2 a3 b c by (simp add: refusing_sel accepting_sel t)
qed

lemma accepting_run:
  "read_loop accepting_env (Some 7) 0 = Some (Returned None, 1)"
proof -
  have "read_loop accepting_env (Some 1) 1 = Some (Returned None, 1)"
    by (subst read_loop.simps) (simp add: accepting_sel)
  moreover have "read_loop accepting_env (Some 7) 0 = read_loop accepting_env (Some 1) 1"
    by (subst read_loop.simps)
      (simp add: accepting_sel accepting_logtailConn TimeOrNow_def fresh_def)
  ultimately show ?thesis by simp
qed

end
